theory Spec2Isabelle
  imports Complex_Main "HOL-Library.Sublist"
begin

section \<open>Python values used by the OpenStack connection\<close>

text \<open>
  Every optional string of the source (a constructor keyword argument or a class
  attribute that is either a \<^verbatim>\<open>str\<close> or \<^verbatim>\<open>None\<close>) is a \<open>string option\<close>.
  Python's truth test on such a value (\<^verbatim>\<open>if x:\<close>) is false for \<^verbatim>\<open>None\<close> and for the
  empty string, and true for every other string; the identity test
  \<^verbatim>\<open>x is None\<close> is \<open>x = None\<close>. The two differ at \<open>Some []\<close>.
  Characters are code points below 256.
\<close>

definition truthy :: "string option \<Rightarrow> bool" where
  "truthy v = (case v of None \<Rightarrow> False | Some s \<Rightarrow> s \<noteq> [])"

text \<open>\<^verbatim>\<open>s.startswith(p)\<close>.\<close>

definition startswith :: "string \<Rightarrow> string \<Rightarrow> bool" where
  "startswith s p = prefix p s"

text \<open>
  \<^verbatim>\<open>str.isspace\<close> on one character, for code points below 256: tab, line feed,
  vertical tab, form feed, carriage return, the four separators 0x1C to 0x1F, space,
  next line (0x85) and no-break space (0xA0).
\<close>

definition py_isspace :: "char \<Rightarrow> bool" where
  "py_isspace c = (c \<in> set [CHR 0x09, CHR 0x0A, CHR 0x0B, CHR 0x0C, CHR 0x0D,
                              CHR 0x1C, CHR 0x1D, CHR 0x1E, CHR 0x1F, CHR 0x20,
                              CHR 0x85, CHR 0xA0])"

text \<open>\<^verbatim>\<open>s.strip()\<close>: leading and trailing whitespace removed.\<close>

definition py_strip :: "string \<Rightarrow> string" where
  "py_strip s = rev (dropWhile py_isspace (rev (dropWhile py_isspace s)))"

text \<open>
  \<^verbatim>\<open>s.split()\<close> with no separator: a left-to-right scan in which runs of whitespace
  separate the words and no empty word is produced. \<open>split_scan cur s\<close> holds the
  word read so far in \<open>cur\<close>.
\<close>

fun split_scan :: "string \<Rightarrow> string \<Rightarrow> string list" where
  "split_scan cur [] = (if cur = [] then [] else [cur])"
| "split_scan cur (c # cs) =
     (if py_isspace c
      then (if cur = [] then split_scan [] cs else cur # split_scan [] cs)
      else split_scan (cur @ [c]) cs)"

definition py_split :: "string \<Rightarrow> string list" where
  "py_split s = split_scan [] s"

section \<open>Exceptions\<close>

text \<open>
  The exceptions the modelled code raises or lets through. \<open>BaseHTTPError\<close> carries the
  HTTP status code of the failed exchange; \<open>AuthError\<close> stands for a rejected or
  undecodable authentication handshake; \<open>OtherError\<close> for any other exception of a
  collaborator (a transport fault, an attribute read on \<^verbatim>\<open>None\<close>); \<open>Exception\<close> is
  Python's plain \<^verbatim>\<open>Exception\<close> with its message.
\<close>

datatype exn =
    LibcloudError string
  | BaseHTTPError int string
  | AuthError string
  | OtherError string
  | Exception string

section \<open>The connection object\<close>

record catalog_entry =
  entry_type :: "string option"
  entry_name :: "string option"
  entry_region :: "string option"
  entry_url :: "string option"

text \<open>Request headers: a dictionary from header names to Python values (a string or None).\<close>

type_synonym headers = "string \<rightharpoonup> string option"

text \<open>
  The effects a connection has on its collaborators, in the order they happen: a call of
  the identity object's \<^verbatim>\<open>authenticate\<close>, the network exchange with the authentication
  endpoint, the eviction of the cached auth context, a lookup in the service catalog
  (type, name, region), the URL given to \<^verbatim>\<open>_set_up_connection_info\<close>, a call of
  \<^verbatim>\<open>connect\<close>, and the HTTP exchange of one request with the headers it was sent with.
\<close>

datatype event =
    EvAuthenticate "(string \<times> string) list"
  | EvHandshake
  | EvClear
  | EvCatalogLookup "string option" "string option" "string option"
  | EvSetUp "string option"
  | EvConnect
  | EvTransport headers

text \<open>
  The identity object (\<^verbatim>\<open>self._osa\<close>): the auth context it caches in memory.
\<close>

record identity =
  osa_auth_token :: "string option"
  osa_auth_token_expires :: "int option"
  osa_auth_user_info :: "string option"
  osa_urls :: "catalog_entry list"

text \<open>
  The class attributes of \<^verbatim>\<open>OpenStackBaseConnection\<close> (lines 143 to 152), which a
  provider's subclass overrides, and \<^verbatim>\<open>default_content_type\<close>, which \<^verbatim>\<open>request\<close> reads
  with \<^verbatim>\<open>getattr(self, "default_content_type", None)\<close>. An instance attribute of the same
  name, once assigned, is the same field updated.
\<close>

record klass =
  auth_url :: "string option"
  auth_token :: "string option"
  auth_token_expires :: "int option"
  auth_user_info :: "string option"
  service_catalog :: "catalog_entry list option"
  service_type :: "string option"
  service_name :: "string option"
  service_region :: "string option"
  accept_format :: "string option"
  auth_version :: "string option"
  default_content_type :: "string option"

text \<open>
  The instance: the class attributes, the private attributes \<^verbatim>\<open>_ex_*\<close> and \<^verbatim>\<open>_osa\<close>
  that \<^verbatim>\<open>__init__\<close> assigns (written \<open>self_...\<close>), the connection info, and the trace of
  effects.
\<close>

record connection = klass +
  base_url :: "string option"
  self_ex_force_base_url :: "string option"
  self_ex_force_auth_url :: "string option"
  self_ex_force_auth_token :: "string option"
  self_ex_force_service_type :: "string option"
  self_ex_force_service_name :: "string option"
  self_ex_force_service_region :: "string option"
  self_ex_force_microversion :: "string option"
  self_osa :: "identity option"
  host :: "string option"
  port :: "nat option"
  secure :: bool
  request_path :: "string option"
  trace :: "event list"

text \<open>
  \<^verbatim>\<open>AUTH_TOKEN_HEADER\<close> is imported from \<^verbatim>\<open>libcloud.common.openstack_identity\<close>; its value
  there is the header name below.
\<close>

definition AUTH_TOKEN_HEADER :: string where
  "AUTH_TOKEN_HEADER = ''X-Auth-Token''"

definition AUTH_API_VERSION :: string where
  "AUTH_API_VERSION = ''1.1''"

section \<open>Default headers and the microversion header\<close>

text \<open>
  Lines 337 to 345 of \<^verbatim>\<open>add_default_headers\<close>: the forced microversion is stripped and
  split; two words are the service and the version, one word is the version of the
  service \<^verbatim>\<open>compute\<close>, anything else raises.
\<close>

definition parse_microversion :: "string \<Rightarrow> exn + string \<times> string" where
  "parse_microversion mv =
     (case py_split (py_strip mv) of
        [a, b] \<Rightarrow> Inr (a, b)
      | [a] \<Rightarrow> Inr (''compute'', a)
      | _ \<Rightarrow> Inl (LibcloudError ''Invalid microversion format: servicename X.XX''))"

text \<open>
  \<^verbatim>\<open>add_default_headers\<close> (lines 332 to 352). The test of line 347 reads
  \<^verbatim>\<open>self.service_type\<close>, the class attribute.
\<close>

definition add_default_headers :: "connection \<Rightarrow> headers \<Rightarrow> exn + headers" where
  "add_default_headers self hs =
     (let hs1 = hs(AUTH_TOKEN_HEADER \<mapsto> auth_token self);
          hs2 = hs1(''Accept'' \<mapsto> accept_format self)
      in if truthy (self_ex_force_microversion self) then
           (case parse_microversion (the (self_ex_force_microversion self)) of
              Inl e \<Rightarrow> Inl e
            | Inr (svc, microversion) \<Rightarrow>
                if truthy (service_type self) \<and> startswith (the (service_type self)) svc
                then Inr (hs2(''OpenStack-API-Version'' \<mapsto> Some (svc @ '' '' @ microversion)))
                else Inr hs2)
         else Inr hs2)"

section \<open>Collaborators\<close>

text \<open>
  What the connection receives from outside its own code: the clock skew the identity
  object allows, the base class's \<^verbatim>\<open>_tuple_from_url\<close> (host, port, secure, request
  path of a URL, or an exception), and whether \<^verbatim>\<open>get_class_for_auth_version\<close> knows an
  authentication version.
\<close>

record world =
  clock_skew :: int
  tuple_from_url :: "string option \<Rightarrow> exn + (string \<times> nat \<times> bool \<times> string)"
  known_auth_version :: "string option \<Rightarrow> bool"

text \<open>
  What one call receives from outside: the time of the call, the answer the
  authentication endpoint gives if it is asked during the call, and the outcome of the
  HTTP exchange if the request is sent (the response's status and body, or the exception
  the base class raises for it).
\<close>

record exchange =
  now :: int
  auth_reply :: "exn + identity"
  reply :: "exn + (nat \<times> string)"

section \<open>The identity object\<close>

text \<open>
  Modelled from the spec: \<^verbatim>\<open>is_token_valid\<close> of the identity class
  (\<^verbatim>\<open>libcloud.common.openstack_identity\<close> is not among the sources). Section 4.2: true
  iff a token is present and, when an expiry is known, \<open>now + clock_skew < expiry\<close>;
  an absent expiry counts as valid until evicted.
\<close>

definition is_token_valid :: "world \<Rightarrow> int \<Rightarrow> identity \<Rightarrow> bool" where
  "is_token_valid w t osa =
     (truthy (osa_auth_token osa) \<and>
      (case osa_auth_token_expires osa of
         None \<Rightarrow> True
       | Some expiry \<Rightarrow> t + clock_skew w < expiry))"

text \<open>
  Modelled from the spec: \<^verbatim>\<open>authenticate\<close> of the identity class, called without
  \<^verbatim>\<open>force\<close>. Section 4.2: if the cached context is valid it is returned; otherwise the
  handshake is performed against the authentication endpoint and its result is
  stored; a failed handshake leaves the store as it was. The result is the identity
  object after the call, and the effects of the call.
\<close>

definition authenticate ::
  "world \<Rightarrow> exchange \<Rightarrow> identity \<Rightarrow> (exn + identity) \<times> event list" where
  "authenticate w x osa =
     (if is_token_valid w (now x) osa then (Inr osa, [])
      else (case auth_reply x of
              Inl e \<Rightarrow> (Inl e, [EvHandshake])
            | Inr ctx \<Rightarrow> (Inr ctx, [EvHandshake])))"

text \<open>
  Modelled from the spec: \<^verbatim>\<open>clear_cached_auth_context\<close> of the identity class, the
  \<^verbatim>\<open>CredentialStore.clear\<close> of sections 4.1 and 4.4. The cached context is dropped;
  clearing an empty cache changes nothing.
\<close>

definition clear_cached_auth_context :: "identity \<Rightarrow> identity" where
  "clear_cached_auth_context osa =
     osa\<lparr>osa_auth_token := None, osa_auth_token_expires := None,
         osa_auth_user_info := None, osa_urls := []\<rparr>"

text \<open>
  Modelled from the spec: the identity object as its class creates it. Section 3: an
  auth context comes from a handshake only, so a new object holds none.
\<close>

definition new_identity :: identity where
  "new_identity =
     \<lparr>osa_auth_token = None, osa_auth_token_expires = None,
      osa_auth_user_info = None, osa_urls = []\<rparr>"

text \<open>
  Modelled from the spec: \<^verbatim>\<open>OpenStackServiceCatalog.get_endpoint\<close>. Section 4.3, steps
  3 and 4: the entries are filtered by type and name; among the matches one of the
  wanted region is preferred, else the first match is taken; no match is an error.
\<close>

definition catalog_get_endpoint ::
  "catalog_entry list \<Rightarrow> string option \<Rightarrow> string option \<Rightarrow> string option
     \<Rightarrow> exn + catalog_entry" where
  "catalog_get_endpoint entries t n r =
     (let ms = filter (\<lambda>e. entry_type e = t \<and> entry_name e = n) entries
      in case filter (\<lambda>e. entry_region e = r) ms of
           e # _ \<Rightarrow> Inr e
         | [] \<Rightarrow> (case ms of
                    e # _ \<Rightarrow> Inr e
                  | [] \<Rightarrow> Inl (LibcloudError ''Could not find specified endpoint'')))"

section \<open>The connection's operations\<close>

text \<open>\<^verbatim>\<open>_get_auth_url\<close> (lines 273 to 283).\<close>

definition get_auth_url :: "connection \<Rightarrow> string option" where
  "get_auth_url self =
     (if self_ex_force_auth_url self \<noteq> None then self_ex_force_auth_url self
      else auth_url self)"

text \<open>The keyword arguments of \<^verbatim>\<open>__init__\<close> (lines 163 to 174) that the model reads.\<close>

record kwargs =
  ex_force_base_url :: "string option"
  ex_force_auth_url :: "string option"
  ex_force_auth_version :: "string option"
  ex_force_auth_token :: "string option"
  ex_force_service_type :: "string option"
  ex_force_service_name :: "string option"
  ex_force_service_region :: "string option"
  ex_force_microversion :: "string option"

text \<open>
  \<^verbatim>\<open>__init__\<close> (lines 154 to 221), for a class with the attributes \<open>cls\<close>. The
  constructor raises (\<open>Inl\<close>) or yields the instance.
\<close>

definition init :: "klass \<Rightarrow> kwargs \<Rightarrow> exn + connection" where
  "init cls kw =
     (let self0 = klass.extend cls
            (connection.fields
               (ex_force_base_url kw) (ex_force_base_url kw) (ex_force_auth_url kw)
               (ex_force_auth_token kw) (ex_force_service_type kw)
               (ex_force_service_name kw) (ex_force_service_region kw)
               (ex_force_microversion kw) None None None True None []);
          self1 = (if truthy (ex_force_auth_version kw)
                   then self0\<lparr>auth_version := ex_force_auth_version kw\<rparr> else self0)
      in if truthy (ex_force_auth_token kw) \<and> \<not> truthy (ex_force_base_url kw)
         then Inl (LibcloudError
                ''Must also provide ex_force_base_url when specifying ex_force_auth_token.'')
         else
           (let self2 = (if truthy (ex_force_auth_token kw)
                         then self1\<lparr>auth_token := ex_force_auth_token kw\<rparr> else self1);
                self3 = (if \<not> truthy (auth_version self2)
                         then self2\<lparr>auth_version := Some AUTH_API_VERSION\<rparr> else self2)
            in if \<not> truthy (get_auth_url self3)
               then Inl (LibcloudError ''OpenStack instance must have auth_url set'')
               else Inr self3))"

text \<open>
  \<^verbatim>\<open>get_auth_class\<close> (lines 223 to 247): the identity object is created on first use,
  by the class \<^verbatim>\<open>get_class_for_auth_version\<close> finds for the version, and kept. When
  that function knows no class for the version it raises; the text of its error is
  not in the sources, the one below stands for it.
\<close>

definition get_auth_class :: "world \<Rightarrow> connection \<Rightarrow> (exn + identity) \<times> connection" where
  "get_auth_class w self =
     (case self_osa self of
        Some osa \<Rightarrow> (Inr osa, self)
      | None \<Rightarrow>
          if known_auth_version w (auth_version self)
          then (Inr new_identity, self\<lparr>self_osa := Some new_identity\<rparr>)
          else (Inl (LibcloudError ''Unsupported Auth Version requested''), self))"

text \<open>
  The overlay of lines 310 to 319 of \<^verbatim>\<open>get_endpoint\<close>: the forced value replaces the
  default when it is true in Python's sense.
\<close>

definition overlay :: "string option \<Rightarrow> string option \<Rightarrow> string option" where
  "overlay forced dflt = (if truthy forced then forced else dflt)"

text \<open>
  \<^verbatim>\<open>get_endpoint\<close> (lines 303 to 330). Reading \<^verbatim>\<open>get_endpoint\<close> of a catalog that is
  \<^verbatim>\<open>None\<close> raises.
\<close>

definition get_endpoint :: "connection \<Rightarrow> (exn + string) \<times> connection" where
  "get_endpoint self =
     (let t = overlay (self_ex_force_service_type self) (service_type self);
          n = overlay (self_ex_force_service_name self) (service_name self);
          r = overlay (self_ex_force_service_region self) (service_region self)
      in case service_catalog self of
           None \<Rightarrow> (Inl (OtherError ''AttributeError''), self)
         | Some entries \<Rightarrow>
             (let self1 = self\<lparr>trace := trace self @ [EvCatalogLookup t n r]\<rparr>
              in case catalog_get_endpoint entries t n r of
                   Inl e \<Rightarrow> (Inl e, self1)
                 | Inr endpoint \<Rightarrow>
                     if \<not> truthy (entry_url endpoint)
                     then (Inl (LibcloudError ''Could not find specified endpoint''), self1)
                     else (Inr (the (entry_url endpoint)), self1)))"

text \<open>\<^verbatim>\<open>_set_up_connection_info\<close> (lines 358 to 366).\<close>

definition set_up_connection_info ::
  "world \<Rightarrow> string option \<Rightarrow> connection \<Rightarrow> (exn + unit) \<times> connection" where
  "set_up_connection_info w url self =
     (let prev_conn = (host self, port self, secure self);
          self1 = self\<lparr>trace := trace self @ [EvSetUp url]\<rparr>
      in case tuple_from_url w url of
           Inl e \<Rightarrow> (Inl e, self1)
         | Inr (h, p, s, rp) \<Rightarrow>
             (let self2 = self1\<lparr>host := Some h, port := Some p, secure := s,
                                 request_path := Some rp\<rparr>;
                  new_conn = (host self2, port self2, secure self2)
              in if new_conn \<noteq> prev_conn
                 then (Inr (), self2\<lparr>trace := trace self2 @ [EvConnect]\<rparr>)
                 else (Inr (), self2)))"

text \<open>The keyword arguments of lines 387 to 392.\<close>

definition auth_kwargs :: "string option \<Rightarrow> (string \<times> string) list" where
  "auth_kwargs v =
     (if v = Some ''2.0_apikey'' then [(''auth_type'', ''api_key'')]
      else if v = Some ''2.0_password'' then [(''auth_type'', ''password'')]
      else [])"

text \<open>
  Lines 384 to 404 of \<^verbatim>\<open>_populate_hosts_and_request_paths\<close>: when the identity
  object's token is not valid, authenticate and copy the new context to the connection.
\<close>

definition refresh_token ::
  "world \<Rightarrow> exchange \<Rightarrow> identity \<Rightarrow> connection \<Rightarrow> (exn + unit) \<times> connection" where
  "refresh_token w x osa self =
     (if \<not> is_token_valid w (now x) osa then
        (let self1 = self\<lparr>trace := trace self @ [EvAuthenticate (auth_kwargs (auth_version self))]\<rparr>
         in case authenticate w x osa of
              (Inl e, evs) \<Rightarrow> (Inl e, self1\<lparr>trace := trace self1 @ evs\<rparr>)
            | (Inr osa', evs) \<Rightarrow>
                (Inr (), self1\<lparr>trace := trace self1 @ evs,
                                self_osa := Some osa',
                                auth_token := osa_auth_token osa',
                                auth_token_expires := osa_auth_token_expires osa',
                                auth_user_info := osa_auth_user_info osa',
                                service_catalog := Some (osa_urls osa')\<rparr>))
      else (Inr (), self))"

text \<open>\<^verbatim>\<open>_populate_hosts_and_request_paths\<close> (lines 368 to 407).\<close>

definition populate_hosts_and_request_paths ::
  "world \<Rightarrow> exchange \<Rightarrow> connection \<Rightarrow> (exn + unit) \<times> connection" where
  "populate_hosts_and_request_paths w x self =
     (case get_auth_class w self of
        (Inl e, self1) \<Rightarrow> (Inl e, self1)
      | (Inr osa, self1) \<Rightarrow>
          if truthy (self_ex_force_auth_token self1)
          then set_up_connection_info w (self_ex_force_base_url self1) self1
          else
            (case refresh_token w x osa self1 of
               (Inl e, self2) \<Rightarrow> (Inl e, self2)
             | (Inr u, self2) \<Rightarrow>
                 if truthy (self_ex_force_base_url self2)
                 then set_up_connection_info w (self_ex_force_base_url self2) self2
                 else (case get_endpoint self2 of
                         (Inl e, self3) \<Rightarrow> (Inl e, self3)
                       | (Inr url, self3) \<Rightarrow> set_up_connection_info w (Some url) self3)))"

text \<open>\<^verbatim>\<open>morph_action_hook\<close> (lines 354 to 356); the action path itself is not modelled.\<close>

definition morph_action_hook ::
  "world \<Rightarrow> exchange \<Rightarrow> connection \<Rightarrow> (exn + unit) \<times> connection" where
  "morph_action_hook w x self = populate_hosts_and_request_paths w x self"

text \<open>
  Modelled from the spec: \<^verbatim>\<open>request\<close> of the base class
  (\<^verbatim>\<open>libcloud.common.base\<close> is not among the sources). Section 4.4, steps 1 to 4: the
  auth context and the connection info are prepared (\<^verbatim>\<open>morph_action_hook\<close>), the
  default headers are injected, and the exchange is delegated to the transport once;
  its outcome is the call's outcome.
\<close>

definition base_request ::
  "world \<Rightarrow> exchange \<Rightarrow> headers \<Rightarrow> connection \<Rightarrow> (exn + nat \<times> string) \<times> connection" where
  "base_request w x hs self =
     (case morph_action_hook w x self of
        (Inl e, self1) \<Rightarrow> (Inl e, self1)
      | (Inr u, self1) \<Rightarrow>
          (case add_default_headers self1 hs of
             Inl e \<Rightarrow> (Inl e, self1)
           | Inr hs' \<Rightarrow> (reply x, self1\<lparr>trace := trace self1 @ [EvTransport hs']\<rparr>)))"

text \<open>
  \<^verbatim>\<open>method.upper()\<close>, on the letters a to z. (Within code points below 256 no other
  character's upper case is one of the letters of POST or PUT.)
\<close>

definition upper_char :: "char \<Rightarrow> char" where
  "upper_char c =
     (let n = (of_char c :: nat)
      in if 97 \<le> n \<and> n \<le> 122 then char_of (n - 32) else c)"

definition HTTP_UNAUTHORIZED :: int where
  "HTTP_UNAUTHORIZED = 401"

text \<open>
  The handler of lines 267 to 271: on a \<^verbatim>\<open>BaseHTTPError\<close> whose code is 401, and when
  \<^verbatim>\<open>self._ex_force_auth_token is None\<close>, the identity object is fetched and its cached
  context cleared. An exception raised inside the handler replaces the one handled.
\<close>

definition evict_on_unauthorized ::
  "world \<Rightarrow> exn \<Rightarrow> connection \<Rightarrow> exn \<times> connection" where
  "evict_on_unauthorized w ex self =
     (case ex of
        BaseHTTPError code msg \<Rightarrow>
          if code = HTTP_UNAUTHORIZED \<and> self_ex_force_auth_token self = None
          then (case get_auth_class w self of
                  (Inl e, self1) \<Rightarrow> (e, self1)
                | (Inr osa, self1) \<Rightarrow>
                    (ex, self1\<lparr>self_osa := Some (clear_cached_auth_context osa),
                               trace := trace self1 @ [EvClear]\<rparr>))
          else (ex, self)
      | _ \<Rightarrow> (ex, self))"

text \<open>Lines 253 to 256 of \<^verbatim>\<open>request\<close>: the default content type of a POST or PUT.\<close>

definition with_content_type :: "connection \<Rightarrow> string \<Rightarrow> headers \<Rightarrow> headers" where
  "with_content_type self method hs =
     (if map upper_char method \<in> set [''POST'', ''PUT''] \<and> truthy (default_content_type self)
      then hs(''Content-Type'' \<mapsto> default_content_type self) else hs)"

text \<open>\<^verbatim>\<open>request\<close> (lines 249 to 271).\<close>

definition request ::
  "world \<Rightarrow> exchange \<Rightarrow> headers \<Rightarrow> string \<Rightarrow> connection
     \<Rightarrow> (exn + nat \<times> string) \<times> connection" where
  "request w x hs method self =
     (case base_request w x (with_content_type self method hs) self of
        (Inr resp, self1) \<Rightarrow> (Inr resp, self1)
      | (Inl ex, self1) \<Rightarrow>
          (case evict_on_unauthorized w ex self1 of (e, self2) \<Rightarrow> (Inl e, self2)))"

text \<open>
  A caller that issues one request after another on the same connection, going on
  after a failed one.
\<close>

fun requests ::
  "world \<Rightarrow> (exchange \<times> headers \<times> string) list \<Rightarrow> connection \<Rightarrow> connection" where
  "requests w [] self = self"
| "requests w ((x, hs, method) # calls) self =
     requests w calls (snd (request w x hs method self))"

section \<open>Waiting for a vCloud task\<close>

text \<open>
  What \<^verbatim>\<open>_wait_for_task_completion\<close> reads of a task's response: the \<^verbatim>\<open>status\<close>
  attribute, and the \<^verbatim>\<open>Error\<close> element: absent (\<open>None\<close>), present without a
  \<^verbatim>\<open>message\<close> attribute (\<open>Some None\<close>), or present with one.
\<close>

record task_response =
  status :: "string option"
  error_elem :: "string option option"

text \<open>
  The surroundings of one wait: the outcome of the k-th status request, the k-th reading
  of \<^verbatim>\<open>time.time()\<close> (both counted from 0), and how the timeout prints in a message.
  Clock readings and the timeout are real numbers; the subtraction is exact.
\<close>

record task_env =
  fetch :: "nat \<Rightarrow> exn + task_response"
  clock :: "nat \<Rightarrow> real"
  render :: "real \<Rightarrow> string"

datatype task_event = TFetch | TCheck

text \<open>The three messages of lines 679 to 690; \<^verbatim>\<open>None\<close> prints as the word None.\<close>

definition error_text :: "string \<Rightarrow> string option option \<Rightarrow> string" where
  "error_text task_href el =
     ''Error status returned by task '' @ task_href @ ''.: '' @
       (case el of
          None \<Rightarrow> ''Unknown error''
        | Some None \<Rightarrow> ''None''
        | Some (Some m) \<Rightarrow> m)"

definition canceled_text :: "string \<Rightarrow> string" where
  "canceled_text task_href = ''Canceled status returned by task '' @ task_href @ ''.''"

definition timeout_text :: "task_env \<Rightarrow> real \<Rightarrow> string \<Rightarrow> string" where
  "timeout_text env timeout task_href =
     ''Timeout ('' @ render env timeout @ '' sec) while waiting for task '' @ task_href @ ''.''"

text \<open>
  The loop of lines 673 to 694. \<open>k\<close> counts the iterations begun so far: an iteration
  that does not leave reads the clock for the \<open>k+1\<close>-th time after the start and then
  fetches the status again. \<open>tr\<close> is the trace of fetches and elapsed-time checks so far.
  A loop that never leaves has no result.
\<close>

partial_function (option) wait_loop ::
  "task_env \<Rightarrow> string \<Rightarrow> real \<Rightarrow> real \<Rightarrow> nat \<Rightarrow> task_event list \<Rightarrow> task_response
     \<Rightarrow> ((exn + unit) \<times> task_event list) option" where
  "wait_loop env task_href timeout start_time k tr res =
     (if status res = Some ''success'' then Some (Inr (), tr)
      else if status res = Some ''error''
        then Some (Inl (Exception (error_text task_href (error_elem res))), tr)
      else if status res = Some ''canceled''
        then Some (Inl (Exception (canceled_text task_href)), tr)
      else if clock env (Suc k) - start_time \<ge> timeout
        then Some (Inl (Exception (timeout_text env timeout task_href)), tr @ [TCheck])
      else (case fetch env (Suc k) of
              Inl e \<Rightarrow> Some (Inl e, tr @ [TCheck, TFetch])
            | Inr res' \<Rightarrow>
                wait_loop env task_href timeout start_time (Suc k) (tr @ [TCheck, TFetch]) res'))"

text \<open>\<^verbatim>\<open>_wait_for_task_completion\<close> (lines 668 to 694).\<close>

definition wait_for_task_completion ::
  "task_env \<Rightarrow> string \<Rightarrow> real \<Rightarrow> ((exn + unit) \<times> task_event list) option" where
  "wait_for_task_completion env task_href timeout =
     (let start_time = clock env 0
      in case fetch env 0 of
           Inl e \<Rightarrow> Some (Inl e, [TFetch])
         | Inr res \<Rightarrow> wait_loop env task_href timeout start_time 0 [TFetch] res)"

text \<open>
  A poll is pending when it returned a status that is none of \<^verbatim>\<open>success\<close>,
  \<^verbatim>\<open>error\<close> and \<^verbatim>\<open>canceled\<close>. \<open>quiet env timeout k\<close>: the first \<open>k\<close> polls were pending
  and the elapsed-time check after each of them found less than the timeout, so the
  loop is about to classify poll \<open>k\<close>. \<open>rounds n\<close> is the trace of \<open>n\<close> polls each followed
  by its elapsed-time check.
\<close>

definition pending :: "exn + task_response \<Rightarrow> bool" where
  "pending r =
     (case r of
        Inl e \<Rightarrow> False
      | Inr res \<Rightarrow> status res \<noteq> Some ''success'' \<and> status res \<noteq> Some ''error''
                    \<and> status res \<noteq> Some ''canceled'')"

fun quiet :: "task_env \<Rightarrow> real \<Rightarrow> nat \<Rightarrow> bool" where
  "quiet env timeout 0 = True"
| "quiet env timeout (Suc k) =
     (quiet env timeout k \<and> pending (fetch env k)
      \<and> clock env (Suc k) - clock env 0 < timeout)"

text \<open>
  Whether a result is a raised exception of Python's plain class \<^verbatim>\<open>Exception\<close>, the
  class lines 681, 686 and 689 construct. The module defines no exception class for
  tasks.
\<close>

fun plain_exception :: "exn + unit \<Rightarrow> bool" where
  "plain_exception (Inl (Exception m)) = True"
| "plain_exception r = False"

fun rounds :: "nat \<Rightarrow> task_event list" where
  "rounds 0 = []"
| "rounds (Suc n) = rounds n @ [TFetch, TCheck]"

text \<open>
  Six tasks polled every 5 seconds: one that succeeds at its fourth poll, one that
  reports an error with the message \<^verbatim>\<open>quota exceeded\<close> at its second, one that has
  succeeded at its first, one that is canceled, one that reports an error whose Error
  element has no \<^verbatim>\<open>message\<close> attribute, and one that runs for ever.
\<close>

definition succeeding_task :: task_env where
  "succeeding_task =
     \<lparr>fetch = (\<lambda>k. Inr \<lparr>status = Some (if k = 0 then ''queued''
                                        else if k < 3 then ''running'' else ''success''),
                          error_elem = None\<rparr>),
      clock = (\<lambda>k. 5 * real k), render = (\<lambda>t. ''600'')\<rparr>"

definition failing_task :: task_env where
  "failing_task =
     \<lparr>fetch = (\<lambda>k. Inr (if k = 0 then \<lparr>status = Some ''running'', error_elem = None\<rparr>
                        else \<lparr>status = Some ''error'',
                              error_elem = Some (Some ''quota exceeded'')\<rparr>)),
      clock = (\<lambda>k. 5 * real k), render = (\<lambda>t. ''600'')\<rparr>"

definition done_task :: task_env where
  "done_task =
     \<lparr>fetch = (\<lambda>k. Inr \<lparr>status = Some ''success'', error_elem = None\<rparr>),
      clock = (\<lambda>k. 5 * real k), render = (\<lambda>t. ''0'')\<rparr>"

definition canceled_task :: task_env where
  "canceled_task =
     \<lparr>fetch = (\<lambda>k. Inr \<lparr>status = Some ''canceled'', error_elem = None\<rparr>),
      clock = (\<lambda>k. 5 * real k), render = (\<lambda>t. ''600'')\<rparr>"

definition unexplained_task :: task_env where
  "unexplained_task =
     \<lparr>fetch = (\<lambda>k. Inr \<lparr>status = Some ''error'', error_elem = Some None\<rparr>),
      clock = (\<lambda>k. 5 * real k), render = (\<lambda>t. ''600'')\<rparr>"

definition running_task :: task_env where
  "running_task =
     \<lparr>fetch = (\<lambda>k. Inr \<lparr>status = Some ''running'', error_elem = None\<rparr>),
      clock = (\<lambda>k. 5 * real k), render = (\<lambda>t. ''10'')\<rparr>"

section \<open>Reading the trace\<close>

text \<open>
  The new events of a call are those after the trace it started with. The settings of a
  connection are the attributes no modelled operation assigns after \<^verbatim>\<open>__init__\<close>.
\<close>

fun is_clear :: "event \<Rightarrow> bool" where
  "is_clear EvClear = True"
| "is_clear _ = False"

fun is_transport :: "event \<Rightarrow> bool" where
  "is_transport (EvTransport hs) = True"
| "is_transport _ = False"

fun is_auth :: "event \<Rightarrow> bool" where
  "is_auth (EvAuthenticate kw) = True"
| "is_auth EvHandshake = True"
| "is_auth _ = False"

fun is_lookup :: "event \<Rightarrow> bool" where
  "is_lookup (EvCatalogLookup t n r) = True"
| "is_lookup _ = False"

definition new_events :: "connection \<Rightarrow> connection \<Rightarrow> event list" where
  "new_events c c' = drop (length (trace c)) (trace c')"

definition same_settings :: "connection \<Rightarrow> connection \<Rightarrow> bool" where
  "same_settings a b \<longleftrightarrow>
     self_ex_force_base_url a = self_ex_force_base_url b \<and>
     self_ex_force_auth_url a = self_ex_force_auth_url b \<and>
     self_ex_force_auth_token a = self_ex_force_auth_token b \<and>
     self_ex_force_service_type a = self_ex_force_service_type b \<and>
     self_ex_force_service_name a = self_ex_force_service_name b \<and>
     self_ex_force_service_region a = self_ex_force_service_region b \<and>
     self_ex_force_microversion a = self_ex_force_microversion b \<and>
     auth_url a = auth_url b \<and> service_type a = service_type b \<and>
     service_name a = service_name b \<and> service_region a = service_region b \<and>
     accept_format a = accept_format b \<and> auth_version a = auth_version b \<and>
     default_content_type a = default_content_type b"

text \<open>
  \<open>extends_by P c c'\<close>: the connection \<open>c'\<close> has the settings of \<open>c\<close>, and its trace
  is the trace of \<open>c\<close> followed by events that all satisfy \<open>P\<close>.
\<close>

definition extends_by :: "(event \<Rightarrow> bool) \<Rightarrow> connection \<Rightarrow> connection \<Rightarrow> bool" where
  "extends_by P c c' \<longleftrightarrow>
     same_settings c c' \<and> prefix (trace c) (trace c') \<and> list_all P (new_events c c')"

text \<open>
  The events a connection with the forced token \<open>tok\<close> and the forced base URL \<open>url\<close>
  may have: connection info set up from that URL, a connect, and an HTTP exchange
  whose auth header is the token. It may not authenticate, shake hands, evict or look
  up the catalog.
\<close>

fun forced_event :: "string \<Rightarrow> string option \<Rightarrow> event \<Rightarrow> bool" where
  "forced_event tok url (EvSetUp u) = (u = url)"
| "forced_event tok url EvConnect = True"
| "forced_event tok url (EvTransport hs) = (hs AUTH_TOKEN_HEADER = Some (Some tok))"
| "forced_event tok url (EvAuthenticate kw) = False"
| "forced_event tok url EvHandshake = False"
| "forced_event tok url EvClear = False"
| "forced_event tok url (EvCatalogLookup t n r) = False"

text \<open>\<open>set_up_from url e\<close>: if \<open>e\<close> sets up connection info, it does so from \<open>url\<close>.\<close>

fun set_up_from :: "string option \<Rightarrow> event \<Rightarrow> bool" where
  "set_up_from url (EvSetUp u) = (u = url)"
| "set_up_from url _ = True"

fun is_handshake :: "event \<Rightarrow> bool" where
  "is_handshake EvHandshake = True"
| "is_handshake _ = False"

section \<open>Concrete inputs\<close>

text \<open>
  A compute connection class, as a provider's driver declares it, the empty keyword
  arguments, and surroundings in which every URL resolves to a host on port 443.
\<close>

definition compute_class :: klass where
  "compute_class =
     \<lparr>auth_url = Some ''https://auth.api.example.com'', auth_token = None,
      auth_token_expires = None, auth_user_info = None, service_catalog = None,
      service_type = Some ''compute'', service_name = Some ''nova'',
      service_region = Some ''RegionOne'', accept_format = Some ''application/json'',
      auth_version = None, default_content_type = Some ''application/json''\<rparr>"

definition no_kwargs :: kwargs where
  "no_kwargs =
     \<lparr>ex_force_base_url = None, ex_force_auth_url = None, ex_force_auth_version = None,
      ex_force_auth_token = None, ex_force_service_type = None,
      ex_force_service_name = None, ex_force_service_region = None,
      ex_force_microversion = None\<rparr>"

definition example_world :: world where
  "example_world =
     \<lparr>clock_skew = 5,
      tuple_from_url = (\<lambda>u. case u of
                               None \<Rightarrow> Inl (OtherError ''TypeError'')
                             | Some s \<Rightarrow> Inr (s, 443, True, ''/'')),
      known_auth_version = (\<lambda>v. v = Some ''1.1'' \<or> v = Some ''2.0'' \<or> v = Some ''3.x'')\<rparr>"

text \<open>
  The auth context a successful handshake returns: the token \<^verbatim>\<open>T1\<close>, expiring at time
  3600, and a catalog with one compute endpoint. Two exchanges, each with that
  handshake: one at time 0 whose request is answered 401, and one at time 10 answered
  200.
\<close>

definition example_context :: identity where
  "example_context =
     \<lparr>osa_auth_token = Some ''T1'', osa_auth_token_expires = Some 3600,
      osa_auth_user_info = Some ''u'',
      osa_urls = [\<lparr>entry_type = Some ''compute'', entry_name = Some ''nova'',
                   entry_region = Some ''RegionOne'',
                   entry_url = Some ''https://compute.example.com/v2''\<rparr>]\<rparr>"

definition unauthorized_exchange :: exchange where
  "unauthorized_exchange =
     \<lparr>now = 0, auth_reply = Inr example_context,
      reply = Inl (BaseHTTPError 401 ''Unauthorized'')\<rparr>"

definition ok_exchange :: exchange where
  "ok_exchange = \<lparr>now = 10, auth_reply = Inr example_context, reply = Inr (200, ''{}'')\<rparr>"

text \<open>
  The keyword arguments of the repository's test of forced tokens, and the same with
  the empty string as the token.
\<close>

definition forced_kwargs :: kwargs where
  "forced_kwargs =
     no_kwargs\<lparr>ex_force_base_url := Some ''http://ponies'', ex_force_auth_token := Some ''1234''\<rparr>"

definition empty_token_kwargs :: kwargs where
  "empty_token_kwargs =
     no_kwargs\<lparr>ex_force_base_url := Some ''http://ponies'', ex_force_auth_token := Some []\<rparr>"

text \<open>
  Keyword arguments that force the empty string as service type and as base URL.
\<close>

definition empty_overrides :: kwargs where
  "empty_overrides = no_kwargs\<lparr>ex_force_base_url := Some [], ex_force_service_type := Some []\<rparr>"

text \<open>
  The instance \<^verbatim>\<open>__init__\<close> yields for \<open>compute_class\<close> and keyword arguments that
  force no auth version (and, with a non-empty forced token, a non-empty base URL).
\<close>

definition compute_conn :: "kwargs \<Rightarrow> connection" where
  "compute_conn kw =
     klass.extend
       (compute_class\<lparr>auth_version := Some ''1.1'',
                       auth_token := (if truthy (ex_force_auth_token kw)
                                      then ex_force_auth_token kw else None)\<rparr>)
       (connection.fields
          (ex_force_base_url kw) (ex_force_base_url kw) (ex_force_auth_url kw)
          (ex_force_auth_token kw) (ex_force_service_type kw)
          (ex_force_service_name kw) (ex_force_service_region kw)
          (ex_force_microversion kw) None None None True None [])"

section \<open>Splitting on whitespace\<close>

lemma split_scan_dropWhile: "split_scan [] (dropWhile py_isspace s) = split_scan [] s"
  by (induction s) auto

lemma split_scan_trailing:
  "\<forall>c\<in>set ws. py_isspace c \<Longrightarrow> split_scan cur (s @ ws) = split_scan cur s"
proof (induction s arbitrary: cur)
  case Nil
  then show ?case by (induction ws arbitrary: cur) auto
next
  case (Cons a s)
  then show ?case by auto
qed

lemma strip_decomp:
  "\<exists>ws. (\<forall>c\<in>set ws. py_isspace c) \<and> dropWhile py_isspace s = py_strip s @ ws"
proof -
  let ?t = "dropWhile py_isspace s"
  have "rev (dropWhile py_isspace (rev ?t)) @ rev (takeWhile py_isspace (rev ?t)) = ?t"
    by (simp flip: rev_append)
  then have "?t = py_strip s @ rev (takeWhile py_isspace (rev ?t))"
    by (simp add: py_strip_def)
  moreover have "\<forall>c\<in>set (rev (takeWhile py_isspace (rev ?t))). py_isspace c"
    using set_takeWhileD by fastforce
  ultimately show ?thesis by blast
qed

lemma py_split_strip: "py_split (py_strip s) = py_split s"
proof -
  obtain ws where ws: "\<forall>c\<in>set ws. py_isspace c" "dropWhile py_isspace s = py_strip s @ ws"
    using strip_decomp by blast
  have "split_scan [] (py_strip s) = split_scan [] (py_strip s @ ws)"
    using split_scan_trailing [OF ws(1)] by simp
  also have "\<dots> = split_scan [] s"
    using ws(2) split_scan_dropWhile [of s] by simp
  finally show ?thesis by (simp add: py_split_def)
qed

lemma split_scan_words:
  "\<forall>c\<in>set cur. \<not> py_isspace c \<Longrightarrow> t \<in> set (split_scan cur s)
     \<Longrightarrow> t \<noteq> [] \<and> (\<forall>c\<in>set t. \<not> py_isspace c)"
proof (induction cur s rule: split_scan.induct)
  case (1 cur)
  then show ?case by (cases "cur = []") simp_all
next
  case (2 cur c cs)
  show ?case
  proof (cases "py_isspace c")
    case sp: True
    show ?thesis
    proof (cases "cur = []")
      case True
      with sp "2.prems" have "t \<in> set (split_scan [] cs)" by simp
      with "2.IH"(1) [OF sp True] show ?thesis by simp
    next
      case False
      with sp "2.prems" have "t = cur \<or> t \<in> set (split_scan [] cs)" by simp
      then show ?thesis
      proof
        assume "t = cur"
        with False "2.prems"(1) show ?thesis by simp
      next
        assume "t \<in> set (split_scan [] cs)"
        with "2.IH"(2) [OF sp False] show ?thesis by simp
      qed
    qed
  next
    case False
    with "2.prems" have "t \<in> set (split_scan (cur @ [c]) cs)" by simp
    moreover from False "2.prems"(1) have "\<forall>d\<in>set (cur @ [c]). \<not> py_isspace d" by simp
    ultimately show ?thesis using "2.IH"(3) [OF False] by blast
  qed
qed

lemma split_scan_concat:
  "concat (split_scan cur s) = cur @ filter (\<lambda>c. \<not> py_isspace c) s"
  by (induction cur s rule: split_scan.induct) simp_all

lemma py_split_words:
  "t \<in> set (py_split s) \<Longrightarrow> t \<noteq> [] \<and> (\<forall>c\<in>set t. \<not> py_isspace c)"
  using split_scan_words [of "[]" t s] by (simp add: py_split_def)

lemma py_split_concat: "concat (py_split s) = filter (\<lambda>c. \<not> py_isspace c) s"
  by (simp add: py_split_def split_scan_concat)

section \<open>The microversion header\<close>

lemma parse_microversion_words:
  "parse_microversion mv =
     (case py_split mv of
        [a, b] \<Rightarrow> Inr (a, b)
      | [a] \<Rightarrow> Inr (''compute'', a)
      | _ \<Rightarrow> Inl (LibcloudError ''Invalid microversion format: servicename X.XX''))"
  by (simp add: parse_microversion_def py_split_strip)

lemma parse_microversion_empty:
  "parse_microversion [] = Inl (LibcloudError ''Invalid microversion format: servicename X.XX'')"
  by (simp add: parse_microversion_words py_split_def)

lemma parse_microversion_error:
  "length (py_split mv) \<noteq> 1 \<Longrightarrow> length (py_split mv) \<noteq> 2 \<Longrightarrow>
   parse_microversion mv = Inl (LibcloudError ''Invalid microversion format: servicename X.XX'')"
  by (cases "py_split mv" rule: list.exhaust; cases "tl (py_split mv)"; cases "tl (tl (py_split mv))")
     (auto simp add: parse_microversion_words)

lemma add_default_headers_forced:
  "self_ex_force_microversion self = Some mv \<Longrightarrow> mv \<noteq> [] \<Longrightarrow>
   add_default_headers self hs =
     (case parse_microversion mv of
        Inl e \<Rightarrow> Inl e
      | Inr (svc, ver) \<Rightarrow>
          if truthy (service_type self) \<and> startswith (the (service_type self)) svc
          then Inr (hs(AUTH_TOKEN_HEADER \<mapsto> auth_token self, ''Accept'' \<mapsto> accept_format self,
                       ''OpenStack-API-Version'' \<mapsto> Some (svc @ '' '' @ ver)))
          else Inr (hs(AUTH_TOKEN_HEADER \<mapsto> auth_token self, ''Accept'' \<mapsto> accept_format self)))"
  by (simp add: add_default_headers_def truthy_def Let_def split: sum.splits prod.splits)


text \<open>
  C4 (as amended). The words of a microversion string are its maximal runs of
  non-whitespace characters: none is empty, none holds whitespace, and together they
  are the string without its whitespace. For every non-empty forced microversion:
  exactly two words are the service and the version, in order; exactly one word is the
  version of the service \<^verbatim>\<open>compute\<close>; with any other number of words
  \<^verbatim>\<open>add_default_headers\<close> raises \<^verbatim>\<open>LibcloudError\<close> (the spec's configuration error),
  and with one or two words it does not raise.
\<close>

theorem microversion_parsing:
  assumes "self_ex_force_microversion self = Some mv" and "mv \<noteq> []"
  shows "(\<forall>t\<in>set (py_split mv). t \<noteq> [] \<and> (\<forall>c\<in>set t. \<not> py_isspace c))
       \<and> concat (py_split mv) = filter (\<lambda>c. \<not> py_isspace c) mv
       \<and> (\<forall>svc ver. py_split mv = [svc, ver] \<longrightarrow>
             parse_microversion mv = Inr (svc, ver) \<and> \<not> isl (add_default_headers self hs))
       \<and> (\<forall>ver. py_split mv = [ver] \<longrightarrow>
             parse_microversion mv = Inr (''compute'', ver) \<and> \<not> isl (add_default_headers self hs))
       \<and> (length (py_split mv) \<noteq> 1 \<and> length (py_split mv) \<noteq> 2 \<longrightarrow>
             parse_microversion mv = Inl (LibcloudError ''Invalid microversion format: servicename X.XX'')
           \<and> add_default_headers self hs = Inl (LibcloudError ''Invalid microversion format: servicename X.XX''))"
proof -
  note hdr = add_default_headers_forced [OF assms, of hs]
  have words: "\<forall>t\<in>set (py_split mv). t \<noteq> [] \<and> (\<forall>c\<in>set t. \<not> py_isspace c)"
  proof
    fix t assume "t \<in> set (py_split mv)"
    then show "t \<noteq> [] \<and> (\<forall>c\<in>set t. \<not> py_isspace c)" by (rule py_split_words)
  qed
  have two: "\<forall>svc ver. py_split mv = [svc, ver] \<longrightarrow>
             parse_microversion mv = Inr (svc, ver) \<and> \<not> isl (add_default_headers self hs)"
    by (simp add: hdr parse_microversion_words)
  have one: "\<forall>ver. py_split mv = [ver] \<longrightarrow>
             parse_microversion mv = Inr (''compute'', ver) \<and> \<not> isl (add_default_headers self hs)"
    by (simp add: hdr parse_microversion_words)
  have other: "length (py_split mv) \<noteq> 1 \<and> length (py_split mv) \<noteq> 2 \<longrightarrow>
             parse_microversion mv = Inl (LibcloudError ''Invalid microversion format: servicename X.XX'')
           \<and> add_default_headers self hs = Inl (LibcloudError ''Invalid microversion format: servicename X.XX'')"
    by (simp add: hdr parse_microversion_error)
  show ?thesis by (intro conjI words py_split_concat two one other)
qed

text \<open>Evaluating the concrete connections.\<close>

lemmas conn_eval =
  compute_conn_def compute_class_def no_kwargs_def forced_kwargs_def empty_token_kwargs_def
  empty_overrides_def
  truthy_def klass.defs connection.defs

text \<open>
  The microversion \<^verbatim>\<open>a b c\<close> has three words and is refused; a service and a version
  between spaces are taken in order; the single word \<^verbatim>\<open>2.60\<close> is a version of
  \<^verbatim>\<open>compute\<close>.
\<close>

theorem microversion_parsing_witness:
  "self_ex_force_microversion (compute_conn (no_kwargs\<lparr>ex_force_microversion := Some ''a b c''\<rparr>))
     = Some ''a b c''
   \<and> ''a b c'' \<noteq> []
   \<and> py_split ''a b c'' = [''a'', ''b'', ''c'']
   \<and> add_default_headers (compute_conn (no_kwargs\<lparr>ex_force_microversion := Some ''a b c''\<rparr>))
        Map.empty = Inl (LibcloudError ''Invalid microversion format: servicename X.XX'')
   \<and> py_split '' volume  3.1 '' = [''volume'', ''3.1'']
   \<and> parse_microversion '' volume  3.1 '' = Inr (''volume'', ''3.1'')
   \<and> py_split ''2.60'' = [''2.60'']
   \<and> parse_microversion ''2.60'' = Inr (''compute'', ''2.60'')"
proof -
  have s: "py_split ''a b c'' = [''a'', ''b'', ''c'']"
    "py_split '' volume  3.1 '' = [''volume'', ''3.1'']"
    "py_split ''2.60'' = [''2.60'']"
    by (simp_all add: py_split_def py_isspace_def)
  have m: "self_ex_force_microversion (compute_conn (no_kwargs\<lparr>ex_force_microversion := Some mv\<rparr>))
     = Some mv" for mv
    by (simp add: conn_eval)
  have ne: "''a b c'' \<noteq> []" "'' volume  3.1 '' \<noteq> []" "''2.60'' \<noteq> []" by simp_all
  from microversion_parsing [OF m ne(1), of Map.empty] s(1)
  have 1: "add_default_headers (compute_conn (no_kwargs\<lparr>ex_force_microversion := Some ''a b c''\<rparr>))
        Map.empty = Inl (LibcloudError ''Invalid microversion format: servicename X.XX'')"
    by simp
  from microversion_parsing [OF m ne(2), of Map.empty] s(2)
  have 2: "parse_microversion '' volume  3.1 '' = Inr (''volume'', ''3.1'')" by simp
  from microversion_parsing [OF m ne(3), of Map.empty]
  have "\<forall>ver. py_split ''2.60'' = [ver] \<longrightarrow>
          parse_microversion ''2.60'' = Inr (''compute'', ver)
          \<and> \<not> isl (add_default_headers
                      (compute_conn (no_kwargs\<lparr>ex_force_microversion := Some ''2.60''\<rparr>)) Map.empty)"
    by (elim conjE)
  with s(3) have 3: "parse_microversion ''2.60'' = Inr (''compute'', ''2.60'')" by simp
  from m [of "''a b c''"] s 1 2 3 show ?thesis by simp
qed

text \<open>
  C4 as stated fails at the empty string: it has no word, which is neither one nor two,
  yet line 335 treats it as no microversion at all and nothing is raised.
\<close>

theorem microversion_empty_counterexample:
  "self_ex_force_microversion (compute_conn (no_kwargs\<lparr>ex_force_microversion := Some []\<rparr>)) = Some []
   \<and> length (py_split []) = 0
   \<and> \<not> isl (add_default_headers (compute_conn (no_kwargs\<lparr>ex_force_microversion := Some []\<rparr>))
              Map.empty)"
  by (simp add: conn_eval py_split_def add_default_headers_def truthy_def)

text \<open>
  C2 (as amended). For a forced microversion that parses to a service and a version,
  \<^verbatim>\<open>add_default_headers\<close> succeeds, and it sets the header
  \<^verbatim>\<open>OpenStack-API-Version\<close> to the service and the version exactly when the class
  attribute \<^verbatim>\<open>service_type\<close> is a non-empty string that starts with the service;
  otherwise the header is left as the caller passed it. The forced service type plays
  no part: the result is the same for every value of it.
\<close>

theorem microversion_header_by_class_service_type:
  assumes "self_ex_force_microversion self = Some mv"
    and "parse_microversion mv = Inr (svc, ver)"
  shows "\<exists>hs'. add_default_headers (self\<lparr>self_ex_force_service_type := forced\<rparr>) hs = Inr hs'
           \<and> hs' ''OpenStack-API-Version'' =
               (if (case service_type self of None \<Rightarrow> False
                                            | Some t \<Rightarrow> t \<noteq> [] \<and> startswith t svc)
                then Some (Some (svc @ '' '' @ ver))
                else hs ''OpenStack-API-Version'')"
proof -
  from assms(2) have ne: "mv \<noteq> []"
    using parse_microversion_empty by auto
  let ?self = "self\<lparr>self_ex_force_service_type := forced\<rparr>"
  have mv: "self_ex_force_microversion ?self = Some mv" using assms(1) by simp
  show ?thesis
    using assms(2)
    by (cases "service_type self")
       (simp_all add: add_default_headers_forced [OF mv ne] truthy_def AUTH_TOKEN_HEADER_def)
qed

text \<open>
  A compute connection whose service type is forced to \<^verbatim>\<open>volume\<close> still gets the
  compute microversion header.
\<close>

theorem microversion_header_by_class_service_type_witness:
  "self_ex_force_microversion (compute_conn (no_kwargs\<lparr>ex_force_microversion := Some ''2.60''\<rparr>))
     = Some ''2.60''
   \<and> parse_microversion ''2.60'' = Inr (''compute'', ''2.60'')
   \<and> (\<exists>hs'. add_default_headers
               (compute_conn (no_kwargs\<lparr>ex_force_microversion := Some ''2.60''\<rparr>)
                  \<lparr>self_ex_force_service_type := Some ''volume''\<rparr>) Map.empty = Inr hs'
           \<and> hs' ''OpenStack-API-Version'' = Some (Some ''compute 2.60''))"
  using microversion_header_by_class_service_type
    [of "compute_conn (no_kwargs\<lparr>ex_force_microversion := Some ''2.60''\<rparr>)" "''2.60''"
        "''compute''" "''2.60''" "Some ''volume''" Map.empty]
  by (simp add: conn_eval parse_microversion_words py_split_def py_isspace_def startswith_def)

text \<open>
  C2 as stated fails: with the class attribute \<^verbatim>\<open>compute\<close>, the forced service type
  \<^verbatim>\<open>volume\<close> and the microversion \<^verbatim>\<open>compute 2.60\<close>, the effective service type
  after override resolution is \<^verbatim>\<open>volume\<close>, which does not start with
  \<^verbatim>\<open>compute\<close>, and the header is attached all the same.
\<close>

theorem microversion_effective_type_counterexample:
  "overlay (self_ex_force_service_type
              (compute_conn (no_kwargs\<lparr>ex_force_microversion := Some ''compute 2.60'',
                                        ex_force_service_type := Some ''volume''\<rparr>)))
           (service_type
              (compute_conn (no_kwargs\<lparr>ex_force_microversion := Some ''compute 2.60'',
                                        ex_force_service_type := Some ''volume''\<rparr>)))
     = Some ''volume''
   \<and> \<not> startswith ''volume'' ''compute''
   \<and> parse_microversion ''compute 2.60'' = Inr (''compute'', ''2.60'')
   \<and> (case add_default_headers
             (compute_conn (no_kwargs\<lparr>ex_force_microversion := Some ''compute 2.60'',
                                       ex_force_service_type := Some ''volume''\<rparr>)) Map.empty of
         Inl e \<Rightarrow> False
       | Inr hs' \<Rightarrow> hs' ''OpenStack-API-Version'' = Some (Some ''compute 2.60''))"
  by (simp add: conn_eval overlay_def truthy_def startswith_def parse_microversion_words
        py_split_def py_isspace_def add_default_headers_def py_split_strip [unfolded py_split_def]
        AUTH_TOKEN_HEADER_def)

section \<open>Effects of the connection's operations\<close>

lemma same_settings_refl [simp]: "same_settings c c"
  by (simp add: same_settings_def)

lemma same_settings_trans: "same_settings a b \<Longrightarrow> same_settings b c \<Longrightarrow> same_settings a c"
  by (simp add: same_settings_def)

lemma extends_by_refl [simp]: "extends_by P c c"
  by (simp add: extends_by_def new_events_def)

lemma extends_byI:
  "same_settings c c' \<Longrightarrow> trace c' = trace c @ evs \<Longrightarrow> list_all P evs \<Longrightarrow> extends_by P c c'"
  by (simp add: extends_by_def new_events_def)

lemma extends_byE:
  assumes "extends_by P c c'"
  obtains evs where "same_settings c c'" "trace c' = trace c @ evs" "list_all P evs"
    "new_events c c' = evs"
proof -
  from assms have p: "prefix (trace c) (trace c')" and s: "same_settings c c'"
    and l: "list_all P (new_events c c')"
    by (simp_all add: extends_by_def)
  from p obtain evs where e: "trace c' = trace c @ evs" by (auto simp: prefix_def)
  then have "new_events c c' = evs" by (simp add: new_events_def)
  with s e l show ?thesis using that by simp
qed

lemma extends_by_trans:
  assumes "extends_by P a b" and "extends_by P b c"
  shows "extends_by P a c"
proof -
  from assms(1) obtain e1 where 1: "same_settings a b" "trace b = trace a @ e1" "list_all P e1"
    by (rule extends_byE)
  from assms(2) obtain e2 where 2: "same_settings b c" "trace c = trace b @ e2" "list_all P e2"
    by (rule extends_byE)
  show ?thesis
  proof (rule extends_byI)
    show "same_settings a c" using 1(1) 2(1) by (rule same_settings_trans)
    show "trace c = trace a @ (e1 @ e2)" using 1(2) 2(2) by simp
    show "list_all P (e1 @ e2)" using 1(3) 2(3) by simp
  qed
qed

lemma extends_by_mono:
  assumes "extends_by P a b" and "\<And>e. P e \<Longrightarrow> Q e"
  shows "extends_by Q a b"
  using assms by (auto simp: extends_by_def list_all_iff)

lemma new_events_trans:
  "prefix (trace a) (trace b) \<Longrightarrow> prefix (trace b) (trace c) \<Longrightarrow>
   new_events a c = new_events a b @ new_events b c"
  by (auto simp: prefix_def new_events_def)


subsection \<open>The identity object is fetched\<close>

lemma get_auth_class_Some:
  "self_osa c = Some osa \<Longrightarrow> get_auth_class w c = (Inr osa, c)"
  by (simp add: get_auth_class_def)

lemma get_auth_class_new:
  "self_osa c = None \<Longrightarrow> known_auth_version w (auth_version c) \<Longrightarrow>
   get_auth_class w c = (Inr new_identity, c\<lparr>self_osa := Some new_identity\<rparr>)"
  by (simp add: get_auth_class_def)

lemma get_auth_class_unknown:
  "self_osa c = None \<Longrightarrow> \<not> known_auth_version w (auth_version c) \<Longrightarrow>
   get_auth_class w c = (Inl (LibcloudError ''Unsupported Auth Version requested''), c)"
  by (simp add: get_auth_class_def)

lemma get_auth_class_extends: "extends_by P c (snd (get_auth_class w c))"
  by (simp add: get_auth_class_def extends_by_def same_settings_def new_events_def
        split: option.split)

lemma get_auth_class_fields:
  "auth_token (snd (get_auth_class w c)) = auth_token c"
  "auth_token_expires (snd (get_auth_class w c)) = auth_token_expires c"
  "auth_user_info (snd (get_auth_class w c)) = auth_user_info c"
  "service_catalog (snd (get_auth_class w c)) = service_catalog c"
  "trace (snd (get_auth_class w c)) = trace c"
  by (simp_all add: get_auth_class_def split: option.split)

lemma get_auth_class_Inr_osa:
  "get_auth_class w c = (Inr osa, c') \<Longrightarrow> self_osa c' = Some osa"
  by (cases "self_osa c"; cases "known_auth_version w (auth_version c)")
     (auto simp: get_auth_class_Some get_auth_class_new get_auth_class_unknown)

lemma get_auth_class_Inl:
  "get_auth_class w c = (Inl e, c') \<Longrightarrow>
     e = LibcloudError ''Unsupported Auth Version requested'' \<and> c' = c \<and> self_osa c = None"
  by (cases "self_osa c"; cases "known_auth_version w (auth_version c)")
     (auto simp: get_auth_class_Some get_auth_class_new get_auth_class_unknown)

subsection \<open>Connection info is set up\<close>

lemma set_up_extends:
  "extends_by (\<lambda>e. e = EvSetUp url \<or> e = EvConnect) c (snd (set_up_connection_info w url c))"
  by (simp add: set_up_connection_info_def extends_by_def same_settings_def new_events_def Let_def
        split: sum.split prod.split)

lemma set_up_fields:
  "auth_token (snd (set_up_connection_info w url c)) = auth_token c"
  "auth_token_expires (snd (set_up_connection_info w url c)) = auth_token_expires c"
  "auth_user_info (snd (set_up_connection_info w url c)) = auth_user_info c"
  "service_catalog (snd (set_up_connection_info w url c)) = service_catalog c"
  "self_osa (snd (set_up_connection_info w url c)) = self_osa c"
  by (simp_all add: set_up_connection_info_def Let_def split: sum.split prod.split)

subsection \<open>An endpoint is selected\<close>

lemma get_endpoint_extends: "extends_by is_lookup c (snd (get_endpoint c))"
  by (simp add: get_endpoint_def extends_by_def same_settings_def new_events_def Let_def
        split: sum.split option.split)

lemma get_endpoint_fields:
  "auth_token (snd (get_endpoint c)) = auth_token c"
  "auth_token_expires (snd (get_endpoint c)) = auth_token_expires c"
  "auth_user_info (snd (get_endpoint c)) = auth_user_info c"
  "service_catalog (snd (get_endpoint c)) = service_catalog c"
  "self_osa (snd (get_endpoint c)) = self_osa c"
  by (simp_all add: get_endpoint_def Let_def split: sum.split option.split)

subsection \<open>The token is refreshed\<close>

lemma refresh_token_valid:
  "is_token_valid w (now x) osa \<Longrightarrow> refresh_token w x osa c = (Inr (), c)"
  by (simp add: refresh_token_def)

lemma refresh_token_extends: "extends_by is_auth c (snd (refresh_token w x osa c))"
  by (simp add: refresh_token_def authenticate_def extends_by_def same_settings_def
        new_events_def Let_def split: sum.split)


lemma refresh_token_settings: "refresh_token w x osa c = (r, c') \<Longrightarrow> same_settings c c'"
  using refresh_token_extends [of c w x osa] by (simp add: extends_by_def)

lemma get_auth_class_same: "get_auth_class w c = (r, c') \<Longrightarrow> same_settings c c'"
  using get_auth_class_extends [of "\<lambda>e. True" c w] by (simp add: extends_by_def)

subsection \<open>The paths through the preparation of a request\<close>

text \<open>
  \<^verbatim>\<open>_populate_hosts_and_request_paths\<close> takes one of six paths; each property of it
  below is proved path by path.
\<close>

lemma populate_cases
  [case_names auth_class_fails forced_token auth_fails forced_url endpoint_fails endpoint]:
  obtains
    (auth_class_fails) e c1 where
      "get_auth_class w c = (Inl e, c1)"
      "populate_hosts_and_request_paths w x c = (Inl e, c1)"
  | (forced_token) osa c1 where
      "get_auth_class w c = (Inr osa, c1)" "truthy (self_ex_force_auth_token c)"
      "populate_hosts_and_request_paths w x c
         = set_up_connection_info w (self_ex_force_base_url c) c1"
  | (auth_fails) osa c1 e c2 where
      "get_auth_class w c = (Inr osa, c1)" "\<not> truthy (self_ex_force_auth_token c)"
      "refresh_token w x osa c1 = (Inl e, c2)"
      "populate_hosts_and_request_paths w x c = (Inl e, c2)"
  | (forced_url) osa c1 c2 where
      "get_auth_class w c = (Inr osa, c1)" "\<not> truthy (self_ex_force_auth_token c)"
      "refresh_token w x osa c1 = (Inr (), c2)" "truthy (self_ex_force_base_url c)"
      "populate_hosts_and_request_paths w x c
         = set_up_connection_info w (self_ex_force_base_url c) c2"
  | (endpoint_fails) osa c1 c2 e c3 where
      "get_auth_class w c = (Inr osa, c1)" "\<not> truthy (self_ex_force_auth_token c)"
      "refresh_token w x osa c1 = (Inr (), c2)" "\<not> truthy (self_ex_force_base_url c)"
      "get_endpoint c2 = (Inl e, c3)"
      "populate_hosts_and_request_paths w x c = (Inl e, c3)"
  | (endpoint) osa c1 c2 url c3 where
      "get_auth_class w c = (Inr osa, c1)" "\<not> truthy (self_ex_force_auth_token c)"
      "refresh_token w x osa c1 = (Inr (), c2)" "\<not> truthy (self_ex_force_base_url c)"
      "get_endpoint c2 = (Inr url, c3)"
      "populate_hosts_and_request_paths w x c = set_up_connection_info w (Some url) c3"
proof -
  obtain r1 c1 where g: "get_auth_class w c = (r1, c1)" by (cases "get_auth_class w c")
  then have s1: "same_settings c c1" by (rule get_auth_class_same)
  show ?thesis
  proof (cases r1)
    case (Inl e)
    with g show ?thesis
      by (intro auth_class_fails [of e c1]) (simp_all add: populate_hosts_and_request_paths_def)
  next
    case (Inr osa)
    note g' = g [unfolded Inr]
    show ?thesis
    proof (cases "truthy (self_ex_force_auth_token c)")
      case True
      with g' s1 show ?thesis
        by (intro forced_token [of osa c1])
           (simp_all add: populate_hosts_and_request_paths_def same_settings_def)
    next
      case nt: False
      obtain r2 c2 where rf: "refresh_token w x osa c1 = (r2, c2)"
        by (cases "refresh_token w x osa c1")
      then have s2: "same_settings c1 c2" by (rule refresh_token_settings)
      show ?thesis
      proof (cases r2)
        case (Inl e)
        with g' s1 nt rf show ?thesis
          by (intro auth_fails [of osa c1 e c2])
             (simp_all add: populate_hosts_and_request_paths_def same_settings_def)
      next
        case (Inr u)
        note rf' = rf [unfolded Inr]
        show ?thesis
        proof (cases "truthy (self_ex_force_base_url c)")
          case True
          with g' s1 s2 nt rf' show ?thesis
            by (intro forced_url [of osa c1 c2])
               (simp_all add: populate_hosts_and_request_paths_def same_settings_def)
        next
          case nu: False
          obtain r3 c3 where ge: "get_endpoint c2 = (r3, c3)" by (cases "get_endpoint c2")
          show ?thesis
          proof (cases r3)
            case (Inl e)
            with g' s1 s2 nt nu rf' ge show ?thesis
              by (intro endpoint_fails [of osa c1 c2 e c3])
                 (simp_all add: populate_hosts_and_request_paths_def same_settings_def)
          next
            case (Inr url)
            with g' s1 s2 nt nu rf' ge show ?thesis
              by (intro endpoint [of osa c1 c2 url c3])
                 (simp_all add: populate_hosts_and_request_paths_def same_settings_def)
          qed
        qed
      qed
    qed
  qed
qed

lemma get_auth_class_ext: "get_auth_class w c = (r, c') \<Longrightarrow> extends_by P c c'"
  using get_auth_class_extends [of P c w] by simp

lemma refresh_token_ext: "refresh_token w x osa c = (r, c') \<Longrightarrow> extends_by is_auth c c'"
  using refresh_token_extends [of c w x osa] by simp

lemma get_endpoint_ext: "get_endpoint c = (r, c') \<Longrightarrow> extends_by is_lookup c c'"
  using get_endpoint_extends [of c] by simp

lemma populate_extends_gen:
  assumes auth: "\<And>e. is_auth e \<Longrightarrow> P e" and look: "\<And>e. is_lookup e \<Longrightarrow> P e"
    and conn: "\<And>u. P (EvSetUp u)" "P EvConnect"
  shows "extends_by P c (snd (populate_hosts_and_request_paths w x c))"
proof -
  have su: "extends_by P a (snd (set_up_connection_info w u a))" for a u
    using set_up_extends [of u a w] by (rule extends_by_mono) (auto intro: conn)
  have rf: "refresh_token w x osa a = (r, b) \<Longrightarrow> extends_by P a b" for osa a r b
    by (rule extends_by_mono [OF refresh_token_ext]) (auto intro: auth)
  have ge: "get_endpoint a = (r, b) \<Longrightarrow> extends_by P a b" for a r b
    by (rule extends_by_mono [OF get_endpoint_ext]) (auto intro: look)
  show ?thesis
  proof (cases rule: populate_cases [of w c x])
    case (auth_class_fails e c1)
    then show ?thesis by (simp add: get_auth_class_ext)
  next
    case (forced_token osa c1)
    then show ?thesis
      using extends_by_trans [OF get_auth_class_ext su] by simp
  next
    case (auth_fails osa c1 e c2)
    then show ?thesis
      using extends_by_trans [OF get_auth_class_ext rf] by simp
  next
    case (forced_url osa c1 c2)
    then show ?thesis
      using extends_by_trans [OF extends_by_trans [OF get_auth_class_ext rf] su] by simp
  next
    case (endpoint_fails osa c1 c2 e c3)
    then show ?thesis
      using extends_by_trans [OF extends_by_trans [OF get_auth_class_ext rf] ge] by simp
  next
    case (endpoint osa c1 c2 url c3)
    then show ?thesis
      using extends_by_trans [OF extends_by_trans [OF extends_by_trans [OF get_auth_class_ext rf] ge] su]
      by simp
  qed
qed

lemma populate_prepares:
  "extends_by (\<lambda>e. \<not> is_clear e \<and> \<not> is_transport e) c
     (snd (populate_hosts_and_request_paths w x c))"
proof (rule populate_extends_gen)
  fix e show "is_auth e \<Longrightarrow> \<not> is_clear e \<and> \<not> is_transport e" by (cases e) simp_all
  show "is_lookup e \<Longrightarrow> \<not> is_clear e \<and> \<not> is_transport e" by (cases e) simp_all
qed simp_all


subsection \<open>One request\<close>

lemma base_request_cases [case_names prep_fails headers_fail sent]:
  obtains
    (prep_fails) e c1 where
      "populate_hosts_and_request_paths w x c = (Inl e, c1)"
      "base_request w x hs c = (Inl e, c1)"
  | (headers_fail) c1 e where
      "populate_hosts_and_request_paths w x c = (Inr (), c1)"
      "add_default_headers c1 hs = Inl e"
      "base_request w x hs c = (Inl e, c1)"
  | (sent) c1 hs' where
      "populate_hosts_and_request_paths w x c = (Inr (), c1)"
      "add_default_headers c1 hs = Inr hs'"
      "base_request w x hs c = (reply x, c1\<lparr>trace := trace c1 @ [EvTransport hs']\<rparr>)"
proof -
  obtain r1 c1 where p: "populate_hosts_and_request_paths w x c = (r1, c1)"
    by (cases "populate_hosts_and_request_paths w x c")
  show ?thesis
  proof (cases r1)
    case (Inl e)
    with p show ?thesis
      by (intro prep_fails [of e c1]) (simp_all add: base_request_def morph_action_hook_def)
  next
    case (Inr u)
    note p' = p [unfolded Inr]
    show ?thesis
    proof (cases "add_default_headers c1 hs")
      case (Inl e)
      with p' show ?thesis
        by (intro headers_fail [of c1 e]) (simp_all add: base_request_def morph_action_hook_def)
    next
      case (Inr hs')
      with p' show ?thesis
        by (intro sent [of c1 hs']) (simp_all add: base_request_def morph_action_hook_def)
    qed
  qed
qed

lemma populate_ext:
  "populate_hosts_and_request_paths w x c = (r, c1) \<Longrightarrow>
   extends_by (\<lambda>e. \<not> is_clear e \<and> \<not> is_transport e) c c1"
  using populate_prepares [of c w x] by simp

lemma extends_by_snoc:
  assumes "extends_by P c c1" and "Q e" and "\<And>e. P e \<Longrightarrow> Q e"
  shows "extends_by Q c (c1\<lparr>trace := trace c1 @ [e]\<rparr>)"
proof -
  from assms(1) obtain evs where 1: "same_settings c c1" "trace c1 = trace c @ evs" "list_all P evs"
    by (rule extends_byE)
  show ?thesis
  proof (rule extends_byI)
    show "same_settings c (c1\<lparr>trace := trace c1 @ [e]\<rparr>)" using 1(1) by (simp add: same_settings_def)
    show "trace (c1\<lparr>trace := trace c1 @ [e]\<rparr>) = trace c @ (evs @ [e])" using 1(2) by simp
    show "list_all Q (evs @ [e])" using 1(3) assms(2,3) by (simp add: list_all_iff)
  qed
qed

text \<open>One call of the base class's request: nothing is evicted, and at most one exchange.\<close>

lemma base_request_effect:
  assumes "base_request w x hs c = (r, c1)"
  shows "extends_by (\<lambda>e. \<not> is_clear e) c c1
       \<and> length (filter is_transport (new_events c c1)) \<le> 1"
proof (cases rule: base_request_cases [of w x c hs])
  case (prep_fails e c0)
  with assms have eq: "c1 = c0" by simp
  from populate_ext [OF prep_fails(1)] obtain evs where
    1: "same_settings c c0" "trace c0 = trace c @ evs"
       "list_all (\<lambda>e. \<not> is_clear e \<and> \<not> is_transport e) evs" "new_events c c0 = evs"
    by (rule extends_byE)
  from 1(3) have "filter is_transport evs = []" by (simp add: list_all_iff filter_empty_conv)
  moreover have "extends_by (\<lambda>e. \<not> is_clear e) c c0"
    by (rule extends_by_mono [OF populate_ext [OF prep_fails(1)]]) simp
  ultimately show ?thesis using eq 1(4) by simp
next
  case (headers_fail c0 e)
  with assms have eq: "c1 = c0" by simp
  from populate_ext [OF headers_fail(1)] obtain evs where
    1: "same_settings c c0" "trace c0 = trace c @ evs"
       "list_all (\<lambda>e. \<not> is_clear e \<and> \<not> is_transport e) evs" "new_events c c0 = evs"
    by (rule extends_byE)
  from 1(3) have "filter is_transport evs = []" by (simp add: list_all_iff filter_empty_conv)
  moreover have "extends_by (\<lambda>e. \<not> is_clear e) c c0"
    by (rule extends_by_mono [OF populate_ext [OF headers_fail(1)]]) simp
  ultimately show ?thesis using eq 1(4) by simp
next
  case (sent c0 hs')
  with assms have eq: "c1 = c0\<lparr>trace := trace c0 @ [EvTransport hs']\<rparr>" by simp
  from populate_ext [OF sent(1)] obtain evs where
    1: "same_settings c c0" "trace c0 = trace c @ evs"
       "list_all (\<lambda>e. \<not> is_clear e \<and> \<not> is_transport e) evs" "new_events c c0 = evs"
    by (rule extends_byE)
  from 1(3) have "filter is_transport evs = []" by (simp add: list_all_iff filter_empty_conv)
  moreover have "new_events c c1 = evs @ [EvTransport hs']"
    using eq 1(2) by (simp add: new_events_def)
  moreover have "extends_by (\<lambda>e. \<not> is_clear e) c c1"
    unfolding eq by (rule extends_by_snoc [OF populate_ext [OF sent(1)]]) simp_all
  ultimately show ?thesis by simp
qed

text \<open>The handler of \<^verbatim>\<open>request\<close>, case by case.\<close>

lemma evict_not_unauthorized:
  "(\<forall>msg. ex \<noteq> BaseHTTPError HTTP_UNAUTHORIZED msg) \<or> self_ex_force_auth_token c \<noteq> None
     \<Longrightarrow> evict_on_unauthorized w ex c = (ex, c)"
  by (cases ex) (auto simp: evict_on_unauthorized_def)

lemma evict_unauthorized:
  assumes "self_ex_force_auth_token c = None"
    and "evict_on_unauthorized w (BaseHTTPError HTTP_UNAUTHORIZED msg) c = (e, c')"
  shows "(e = BaseHTTPError HTTP_UNAUTHORIZED msg \<and>
            (\<exists>osa. self_osa c' = Some (clear_cached_auth_context osa)) \<and>
            same_settings c c' \<and> trace c' = trace c @ [EvClear])
       \<or> (e = LibcloudError ''Unsupported Auth Version requested'' \<and> c' = c)"
proof -
  obtain r1 c1 where g: "get_auth_class w c = (r1, c1)" by (cases "get_auth_class w c")
  show ?thesis
  proof (cases r1)
    case (Inl e1)
    with g assms get_auth_class_Inl [of w c e1 c1] show ?thesis
      by (simp add: evict_on_unauthorized_def)
  next
    case (Inr osa)
    from g have "same_settings c c1" by (rule get_auth_class_same)
    moreover from g have "trace c1 = trace c" using get_auth_class_fields(5) [of w c] by simp
    ultimately show ?thesis using g Inr assms
      by (auto simp add: evict_on_unauthorized_def same_settings_def)
  qed
qed


lemma request_cases [case_names ok failed]:
  obtains
    (ok) resp c1 where
      "base_request w x (with_content_type c m hs) c = (Inr resp, c1)"
      "request w x hs m c = (Inr resp, c1)"
  | (failed) ex c1 where
      "base_request w x (with_content_type c m hs) c = (Inl ex, c1)"
      "request w x hs m c
         = (Inl (fst (evict_on_unauthorized w ex c1)), snd (evict_on_unauthorized w ex c1))"
proof -
  obtain r1 c1 where b: "base_request w x (with_content_type c m hs) c = (r1, c1)"
    by (cases "base_request w x (with_content_type c m hs) c")
  show ?thesis
  proof (cases r1)
    case (Inl ex)
    with b show ?thesis
      by (intro failed [of ex c1]) (simp_all add: request_def split: prod.split)
  next
    case (Inr resp)
    with b show ?thesis by (intro ok [of resp c1]) (simp_all add: request_def)
  qed
qed

section \<open>Eviction on 401\<close>

lemma unauthorized_request:
  assumes "request w x hs meth self = (Inl (BaseHTTPError HTTP_UNAUTHORIZED msg), self')"
  shows "prefix (trace self) (trace self')
       \<and> (self_ex_force_auth_token self = None \<longrightarrow>
            (\<exists>evs osa. new_events self self' = evs @ [EvClear]
                \<and> list_all (\<lambda>e. \<not> is_clear e) evs
                \<and> length (filter is_transport evs) \<le> 1
                \<and> self_osa self' = Some (clear_cached_auth_context osa)))
       \<and> (self_ex_force_auth_token self \<noteq> None \<longrightarrow>
            list_all (\<lambda>e. \<not> is_clear e) (new_events self self')
            \<and> length (filter is_transport (new_events self self')) \<le> 1)"
proof (cases rule: request_cases [of w x self meth hs])
  case (ok resp c1)
  with assms show ?thesis by simp
next
  case (failed ex c1)
  from base_request_effect [OF failed(1)]
  have ext: "extends_by (\<lambda>e. \<not> is_clear e) self c1"
    and one: "length (filter is_transport (new_events self c1)) \<le> 1" by simp_all
  from ext obtain evs where
    1: "same_settings self c1" "trace c1 = trace self @ evs"
       "list_all (\<lambda>e. \<not> is_clear e) evs" "new_events self c1 = evs"
    by (rule extends_byE)
  from 1(1) have tok: "self_ex_force_auth_token c1 = self_ex_force_auth_token self"
    by (simp add: same_settings_def)
  from assms failed(2)
  have ev: "evict_on_unauthorized w ex c1 = (BaseHTTPError HTTP_UNAUTHORIZED msg, self')"
    by (simp add: prod_eq_iff)
  show ?thesis
  proof (cases "self_ex_force_auth_token self = None")
    case True
    have ex: "ex = BaseHTTPError HTTP_UNAUTHORIZED msg"
    proof (rule ccontr)
      assume "ex \<noteq> BaseHTTPError HTTP_UNAUTHORIZED msg"
      moreover have "\<forall>m. ex \<noteq> BaseHTTPError HTTP_UNAUTHORIZED m \<Longrightarrow> ex = BaseHTTPError HTTP_UNAUTHORIZED msg"
        using ev evict_not_unauthorized [of ex c1 w] by simp
      moreover have "ex = BaseHTTPError HTTP_UNAUTHORIZED m \<Longrightarrow> m = msg" for m
        using ev evict_unauthorized [of c1 w m "BaseHTTPError HTTP_UNAUTHORIZED msg" self'] True tok
        by auto
      ultimately show False by blast
    qed
    from evict_unauthorized [OF _ ev [unfolded ex]] True tok
    obtain osa where 2: "self_osa self' = Some (clear_cached_auth_context osa)"
      "trace self' = trace c1 @ [EvClear]" by auto
    from 2(2) 1(2) have "new_events self self' = evs @ [EvClear]" by (simp add: new_events_def)
    moreover from 2(2) 1(2) have "prefix (trace self) (trace self')" by simp
    ultimately show ?thesis using True 1(3,4) one 2(1) by auto
  next
    case False
    with tok ev evict_not_unauthorized [of ex c1 w] have eq: "self' = c1" by simp
    from 1(2) have "prefix (trace self) (trace c1)" by simp
    with False 1(3,4) one show ?thesis unfolding eq by blast
  qed
qed


lemma request_extends:
  "extends_by (\<lambda>e. self_ex_force_auth_token c \<noteq> None \<longrightarrow> \<not> is_clear e) c
     (snd (request w x hs m c))"
proof (cases rule: request_cases [of w x c m hs])
  case (ok resp c1)
  from base_request_effect [OF ok(1)] have "extends_by (\<lambda>e. \<not> is_clear e) c c1" by simp
  then show ?thesis unfolding ok(2) snd_conv by (rule extends_by_mono) simp
next
  case (failed ex c1)
  from base_request_effect [OF failed(1)] have ext: "extends_by (\<lambda>e. \<not> is_clear e) c c1"
    by simp
  then have tok: "self_ex_force_auth_token c1 = self_ex_force_auth_token c"
    by (simp add: extends_by_def same_settings_def)
  show ?thesis
  proof (cases "(\<forall>msg. ex \<noteq> BaseHTTPError HTTP_UNAUTHORIZED msg)
                  \<or> self_ex_force_auth_token c1 \<noteq> None")
    case True
    then have "evict_on_unauthorized w ex c1 = (ex, c1)" by (rule evict_not_unauthorized)
    with failed(2) have "snd (request w x hs m c) = c1" by simp
    with ext show ?thesis by (simp add: extends_by_mono)
  next
    case False
    then obtain msg where ex: "ex = BaseHTTPError HTTP_UNAUTHORIZED msg"
      and none: "self_ex_force_auth_token c1 = None" by blast
    obtain e c2 where ev: "evict_on_unauthorized w (BaseHTTPError HTTP_UNAUTHORIZED msg) c1 = (e, c2)"
      by (cases "evict_on_unauthorized w (BaseHTTPError HTTP_UNAUTHORIZED msg) c1")
    from evict_unauthorized [OF none ev]
    have "extends_by (\<lambda>e. True) c1 c2"
      by (auto intro: extends_byI [where evs = "[EvClear]"])
    moreover from ext have "extends_by (\<lambda>e. True) c c1" by (rule extends_by_mono) simp
    ultimately have "extends_by (\<lambda>e. True) c c2" using extends_by_trans by blast
    moreover from failed(2) ev ex have "snd (request w x hs m c) = c2" by simp
    ultimately show ?thesis using none tok by (simp add: extends_by_mono)
  qed
qed

lemma requests_extends:
  "extends_by (\<lambda>e. self_ex_force_auth_token c \<noteq> None \<longrightarrow> \<not> is_clear e) c (requests w calls c)"
proof (induction calls arbitrary: c)
  case Nil
  show ?case by simp
next
  case (Cons call calls)
  obtain x hs m where call: "call = (x, hs, m)" by (cases call)
  let ?c1 = "snd (request w x hs m c)"
  have 1: "extends_by (\<lambda>e. self_ex_force_auth_token c \<noteq> None \<longrightarrow> \<not> is_clear e) c ?c1"
    by (rule request_extends)
  then have "self_ex_force_auth_token ?c1 = self_ex_force_auth_token c"
    by (simp add: extends_by_def same_settings_def)
  with Cons.IH [of ?c1]
  have 2: "extends_by (\<lambda>e. self_ex_force_auth_token c \<noteq> None \<longrightarrow> \<not> is_clear e) ?c1
             (requests w calls ?c1)" by simp
  show ?case unfolding call requests.simps by (rule extends_by_trans [OF 1 2])
qed

lemma refresh_token_osa:
  "self_osa c \<noteq> None \<Longrightarrow> self_osa (snd (refresh_token w x osa c)) \<noteq> None"
  by (simp add: refresh_token_def authenticate_def Let_def split: sum.split)

text \<open>
  When preparing a request fails with anything but the error of an unknown auth
  version, the identity object exists.
\<close>

lemma populate_osa:
  "fst (populate_hosts_and_request_paths w x c)
     = Inl (LibcloudError ''Unsupported Auth Version requested'')
   \<or> self_osa (snd (populate_hosts_and_request_paths w x c)) \<noteq> None"
proof (cases rule: populate_cases [of w c x])
  case (auth_class_fails e c1)
  with get_auth_class_Inl [OF auth_class_fails(1)] show ?thesis by simp
next
  case (forced_token osa c1)
  with get_auth_class_Inr_osa [OF forced_token(1)] show ?thesis by (simp add: set_up_fields)
next
  case (auth_fails osa c1 e c2)
  from get_auth_class_Inr_osa [OF auth_fails(1)] refresh_token_osa [of c1 w x osa] auth_fails(3)
  show ?thesis unfolding auth_fails(4) by simp
next
  case (forced_url osa c1 c2)
  from get_auth_class_Inr_osa [OF forced_url(1)] refresh_token_osa [of c1 w x osa] forced_url(3)
  show ?thesis unfolding forced_url(5) by (simp add: set_up_fields)
next
  case (endpoint_fails osa c1 c2 e c3)
  from get_auth_class_Inr_osa [OF endpoint_fails(1)] refresh_token_osa [of c1 w x osa]
    endpoint_fails(3) have "self_osa c2 \<noteq> None" by simp
  moreover from endpoint_fails(5) have "self_osa c3 = self_osa c2"
    using get_endpoint_fields(5) [of c2] by simp
  ultimately show ?thesis unfolding endpoint_fails(6) by simp
next
  case (endpoint osa c1 c2 url c3)
  from get_auth_class_Inr_osa [OF endpoint(1)] refresh_token_osa [of c1 w x osa]
    endpoint(3) have "self_osa c2 \<noteq> None" by simp
  moreover from endpoint(5) have "self_osa c3 = self_osa c2"
    using get_endpoint_fields(5) [of c2] by simp
  ultimately show ?thesis unfolding endpoint(6) by (simp add: set_up_fields)
qed

lemma base_request_osa:
  assumes "base_request w x hs c = (Inl (BaseHTTPError code msg), c1)"
  shows "self_osa c1 \<noteq> None"
proof (cases rule: base_request_cases [of w x c hs])
  case (prep_fails e c0)
  with assms populate_osa [of w x c] show ?thesis by auto
next
  case (headers_fail c0 e)
  with assms populate_osa [of w x c] show ?thesis by auto
next
  case (sent c0 hs')
  with assms populate_osa [of w x c] show ?thesis by auto
qed

text \<open>A 401 of the underlying call reaches the caller as it is.\<close>

lemma unauthorized_reraised:
  assumes "base_request w x (with_content_type c m hs) c
             = (Inl (BaseHTTPError HTTP_UNAUTHORIZED msg), c1)"
  shows "fst (request w x hs m c) = Inl (BaseHTTPError HTTP_UNAUTHORIZED msg)"
proof -
  from base_request_osa [OF assms] obtain osa where o: "self_osa c1 = Some osa" by auto
  then have "get_auth_class w c1 = (Inr osa, c1)" by (rule get_auth_class_Some)
  then have "fst (evict_on_unauthorized w (BaseHTTPError HTTP_UNAUTHORIZED msg) c1)
               = BaseHTTPError HTTP_UNAUTHORIZED msg"
    by (simp add: evict_on_unauthorized_def)
  with assms show ?thesis
    by (cases "evict_on_unauthorized w (BaseHTTPError HTTP_UNAUTHORIZED msg) c1")
       (simp add: request_def)
qed

text \<open>
  C1. When the underlying call of \<^verbatim>\<open>request\<close> fails with a \<^verbatim>\<open>BaseHTTPError\<close> of code
  401, that error reaches the caller as it is. When \<^verbatim>\<open>request\<close> fails with it: the
  trace only grows; if \<^verbatim>\<open>_ex_force_auth_token\<close> is \<^verbatim>\<open>None\<close>, the new events end with the
  one eviction of the call (no other event of the call is an eviction), the identity
  object's context is the cleared one when the error reaches the caller, and at most
  one HTTP exchange was made (the call is not retried); if a forced token is
  configured, the call evicts nothing. And with a forced token no sequence of requests,
  whatever their outcomes, ever evicts.
\<close>

theorem unauthorized_evicts_once:
  "(base_request w x (with_content_type self meth hs) self
      = (Inl (BaseHTTPError HTTP_UNAUTHORIZED msg), self1) \<longrightarrow>
      fst (request w x hs meth self) = Inl (BaseHTTPError HTTP_UNAUTHORIZED msg))
 \<and> (request w x hs meth self = (Inl (BaseHTTPError HTTP_UNAUTHORIZED msg), self') \<longrightarrow>
      prefix (trace self) (trace self')
    \<and> (self_ex_force_auth_token self = None \<longrightarrow>
         (\<exists>evs osa. new_events self self' = evs @ [EvClear]
             \<and> list_all (\<lambda>e. \<not> is_clear e) evs
             \<and> length (filter is_transport evs) \<le> 1
             \<and> self_osa self' = Some (clear_cached_auth_context osa)))
    \<and> (self_ex_force_auth_token self \<noteq> None \<longrightarrow>
         list_all (\<lambda>e. \<not> is_clear e) (new_events self self')
         \<and> length (filter is_transport (new_events self self')) \<le> 1))
 \<and> (self_ex_force_auth_token self \<noteq> None \<longrightarrow>
      prefix (trace self) (trace (requests w calls self))
      \<and> list_all (\<lambda>e. \<not> is_clear e) (new_events self (requests w calls self)))"
proof (intro conjI impI)
  assume "base_request w x (with_content_type self meth hs) self
            = (Inl (BaseHTTPError HTTP_UNAUTHORIZED msg), self1)"
  then show "fst (request w x hs meth self) = Inl (BaseHTTPError HTTP_UNAUTHORIZED msg)"
    by (rule unauthorized_reraised)
next
  assume "self_ex_force_auth_token self \<noteq> None"
  with requests_extends [of self w calls]
  show "prefix (trace self) (trace (requests w calls self))"
    and "list_all (\<lambda>e. \<not> is_clear e) (new_events self (requests w calls self))"
    by (simp_all add: extends_by_def)
next
  assume r: "request w x hs meth self = (Inl (BaseHTTPError HTTP_UNAUTHORIZED msg), self')"
  note u = unauthorized_request [OF r]
  from u show "prefix (trace self) (trace self')" by simp
  { assume "self_ex_force_auth_token self = None"
    with u show "\<exists>evs osa. new_events self self' = evs @ [EvClear]
             \<and> list_all (\<lambda>e. \<not> is_clear e) evs
             \<and> length (filter is_transport evs) \<le> 1
             \<and> self_osa self' = Some (clear_cached_auth_context osa)" by blast }
  { assume "self_ex_force_auth_token self \<noteq> None"
    with u show "list_all (\<lambda>e. \<not> is_clear e) (new_events self self')"
      and "length (filter is_transport (new_events self self')) \<le> 1" by blast+ }
qed

text \<open>Evaluating a request on concrete inputs.\<close>

lemmas request_eval =
  request_def with_content_type_def base_request_def morph_action_hook_def
  populate_hosts_and_request_paths_def get_auth_class_def refresh_token_def
  authenticate_def is_token_valid_def get_endpoint_def catalog_get_endpoint_def
  set_up_connection_info_def evict_on_unauthorized_def clear_cached_auth_context_def
  add_default_headers_def overlay_def truthy_def auth_kwargs_def new_identity_def
  HTTP_UNAUTHORIZED_def AUTH_TOKEN_HEADER_def upper_char_def
  example_world_def example_context_def unauthorized_exchange_def ok_exchange_def Let_def

text \<open>
  A compute connection without forced token whose first request is answered 401: the
  handshake, the catalog lookup and one exchange happen, then the one eviction.
\<close>

theorem unauthorized_evicts_once_witness:
  "fst (request example_world unauthorized_exchange Map.empty ''GET'' (compute_conn no_kwargs))
     = Inl (BaseHTTPError HTTP_UNAUTHORIZED ''Unauthorized'')
   \<and> self_ex_force_auth_token (compute_conn no_kwargs) = None
   \<and> (\<exists>evs osa.
         new_events (compute_conn no_kwargs)
           (snd (request example_world unauthorized_exchange Map.empty ''GET''
                   (compute_conn no_kwargs))) = evs @ [EvClear]
       \<and> list_all (\<lambda>e. \<not> is_clear e) evs
       \<and> length (filter is_transport evs) \<le> 1
       \<and> self_osa (snd (request example_world unauthorized_exchange Map.empty ''GET''
                          (compute_conn no_kwargs)))
           = Some (clear_cached_auth_context osa))"
proof -
  let ?c = "compute_conn no_kwargs"
  let ?R = "request example_world unauthorized_exchange Map.empty ''GET'' ?c"
  have f: "fst ?R = Inl (BaseHTTPError HTTP_UNAUTHORIZED ''Unauthorized'')"
    by (simp add: request_eval conn_eval)
  then have r: "?R = (Inl (BaseHTTPError HTTP_UNAUTHORIZED ''Unauthorized''), snd ?R)"
    by (simp add: prod_eq_iff)
  have n: "self_ex_force_auth_token ?c = None" by (simp add: conn_eval)
  from unauthorized_evicts_once
         [where w = example_world and x = unauthorized_exchange and hs = Map.empty
            and meth = "''GET''" and self = ?c and msg = "''Unauthorized''"
            and self' = "snd ?R" and calls = "[]"] r n
  show ?thesis using f by blast
qed

section \<open>Construction\<close>

lemma init_result:
  "case init cls kw of
     Inl e \<Rightarrow> True
   | Inr self \<Rightarrow>
       self_ex_force_auth_token self = ex_force_auth_token kw
     \<and> self_ex_force_base_url self = ex_force_base_url kw
     \<and> self_ex_force_service_type self = ex_force_service_type kw
     \<and> self_ex_force_service_name self = ex_force_service_name kw
     \<and> self_ex_force_service_region self = ex_force_service_region kw
     \<and> self_ex_force_microversion self = ex_force_microversion kw
     \<and> self_osa self = None \<and> trace self = []
     \<and> auth_token self = (if truthy (ex_force_auth_token kw) then ex_force_auth_token kw
                           else auth_token cls)
     \<and> service_type self = service_type cls
     \<and> service_name self = service_name cls
     \<and> service_region self = service_region cls
     \<and> (truthy (ex_force_auth_token kw) \<longrightarrow> truthy (ex_force_base_url kw))"
  by (simp add: init_def Let_def klass.defs connection.defs)

lemma init_fields:
  assumes "init cls kw = Inr self"
  shows "self_ex_force_auth_token self = ex_force_auth_token kw"
    and "self_ex_force_base_url self = ex_force_base_url kw"
    and "self_ex_force_service_type self = ex_force_service_type kw"
    and "self_ex_force_service_name self = ex_force_service_name kw"
    and "self_ex_force_service_region self = ex_force_service_region kw"
    and "self_ex_force_microversion self = ex_force_microversion kw"
    and "self_osa self = None" and "trace self = []"
    and "auth_token self = (if truthy (ex_force_auth_token kw) then ex_force_auth_token kw
                            else auth_token cls)"
    and "service_type self = service_type cls"
    and "service_name self = service_name cls"
    and "service_region self = service_region cls"
    and "truthy (ex_force_auth_token kw) \<longrightarrow> truthy (ex_force_base_url kw)"
  using init_result [where cls = cls and kw = kw] assms by simp_all

text \<open>
  C8 (as amended). Constructing a connection with a non-empty forced auth token and
  with no forced base URL, or an empty one, raises \<^verbatim>\<open>LibcloudError\<close> (the spec's
  configuration error), for every class: no instance is returned.
\<close>

theorem forced_token_needs_base_url:
  assumes "ex_force_auth_token kw = Some tok" and "tok \<noteq> []"
    and "ex_force_base_url kw = None \<or> ex_force_base_url kw = Some []"
  shows "init cls kw = Inl (LibcloudError
           ''Must also provide ex_force_base_url when specifying ex_force_auth_token.'')"
  using assms by (auto simp add: init_def Let_def truthy_def)

text \<open>The keyword arguments of the repository's test: a token and no base URL.\<close>

theorem forced_token_needs_base_url_witness:
  "ex_force_auth_token (no_kwargs\<lparr>ex_force_auth_token := Some ''preset-auth-token''\<rparr>)
      = Some ''preset-auth-token''
   \<and> ''preset-auth-token'' \<noteq> []
   \<and> ex_force_base_url (no_kwargs\<lparr>ex_force_auth_token := Some ''preset-auth-token''\<rparr>) = None
   \<and> init compute_class (no_kwargs\<lparr>ex_force_auth_token := Some ''preset-auth-token''\<rparr>)
      = Inl (LibcloudError
           ''Must also provide ex_force_base_url when specifying ex_force_auth_token.'')"
  using forced_token_needs_base_url
    [of "no_kwargs\<lparr>ex_force_auth_token := Some ''preset-auth-token''\<rparr>" "''preset-auth-token''"
        compute_class]
  by (simp add: no_kwargs_def)

text \<open>
  C8 as stated fails at the empty string: with the forced token \<^verbatim>\<open>""\<close> and no forced
  base URL the truth test of line 207 is false, nothing is raised, and the instance is
  created.
\<close>

theorem empty_forced_token_counterexample:
  "ex_force_auth_token (no_kwargs\<lparr>ex_force_auth_token := Some []\<rparr>) = Some []
   \<and> ex_force_base_url (no_kwargs\<lparr>ex_force_auth_token := Some []\<rparr>) = None
   \<and> init compute_class (no_kwargs\<lparr>ex_force_auth_token := Some []\<rparr>)
       = Inr (compute_conn (no_kwargs\<lparr>ex_force_auth_token := Some []\<rparr>))"
  by (simp add: init_def Let_def truthy_def conn_eval get_auth_url_def AUTH_API_VERSION_def)

lemma init_compute:
  "ex_force_auth_version kw = None \<Longrightarrow> ex_force_auth_url kw = None \<Longrightarrow>
   (truthy (ex_force_auth_token kw) \<longrightarrow> truthy (ex_force_base_url kw)) \<Longrightarrow>
   init compute_class kw = Inr (compute_conn kw)"
  by (auto simp add: init_def Let_def get_auth_url_def AUTH_API_VERSION_def compute_conn_def
        compute_class_def klass.defs connection.defs truthy_def)


section \<open>A forced token\<close>

lemma add_default_headers_token:
  "add_default_headers c hs = Inr hs' \<Longrightarrow> hs' AUTH_TOKEN_HEADER = Some (auth_token c)"
  by (auto simp add: add_default_headers_def AUTH_TOKEN_HEADER_def Let_def
        split: if_split_asm sum.split_asm prod.split_asm)

lemma same_settings_token:
  "same_settings a b \<Longrightarrow> self_ex_force_auth_token b = self_ex_force_auth_token a"
  by (simp add: same_settings_def)

lemma same_settings_base_url:
  "same_settings a b \<Longrightarrow> self_ex_force_base_url b = self_ex_force_base_url a"
  by (simp add: same_settings_def)

lemma populate_forced:
  assumes tok: "self_ex_force_auth_token c = Some tok" "tok \<noteq> []"
  shows "extends_by (forced_event tok (self_ex_force_base_url c)) c
           (snd (populate_hosts_and_request_paths w x c))
       \<and> auth_token (snd (populate_hosts_and_request_paths w x c)) = auth_token c"
proof -
  from tok have t: "truthy (self_ex_force_auth_token c)" by (simp add: truthy_def)
  let ?P = "forced_event tok (self_ex_force_base_url c)"
  show ?thesis
  proof (cases rule: populate_cases [of w c x])
    case (auth_class_fails e c1)
    moreover from auth_class_fails(1) have "auth_token c1 = auth_token c"
      using get_auth_class_fields(1) [of w c] by simp
    ultimately show ?thesis by (simp add: get_auth_class_ext)
  next
    case (forced_token osa c1)
    let ?c2 = "snd (set_up_connection_info w (self_ex_force_base_url c) c1)"
    have "extends_by ?P c1 ?c2"
      by (rule extends_by_mono [OF set_up_extends]) auto
    with get_auth_class_ext [OF forced_token(1)] have "extends_by ?P c ?c2"
      by (rule extends_by_trans)
    moreover from forced_token(1) have "auth_token ?c2 = auth_token c"
      using get_auth_class_fields(1) [of w c] by (simp add: set_up_fields)
    ultimately show ?thesis using forced_token(3) by simp
  qed (use t in simp_all)
qed

lemma base_request_forced:
  assumes tok: "self_ex_force_auth_token c = Some tok" "tok \<noteq> []"
    and at: "auth_token c = Some tok"
  shows "extends_by (forced_event tok (self_ex_force_base_url c)) c (snd (base_request w x hs c))
       \<and> auth_token (snd (base_request w x hs c)) = Some tok"
proof -
  let ?P = "forced_event tok (self_ex_force_base_url c)"
  note p = populate_forced [OF tok, of w x]
  show ?thesis
  proof (cases rule: base_request_cases [of w x c hs])
    case (prep_fails e c1)
    with p at show ?thesis by simp
  next
    case (headers_fail c1 e)
    with p at show ?thesis by simp
  next
    case (sent c1 hs')
    from p sent(1) at have 1: "extends_by ?P c c1" and 2: "auth_token c1 = Some tok" by simp_all
    from add_default_headers_token [OF sent(2)] 2 have "?P (EvTransport hs')" by simp
    with 1 have "extends_by ?P c (c1\<lparr>trace := trace c1 @ [EvTransport hs']\<rparr>)"
      by (rule extends_by_snoc) simp
    with sent(3) 2 show ?thesis by simp
  qed
qed

lemma request_forced:
  assumes tok: "self_ex_force_auth_token c = Some tok" "tok \<noteq> []"
    and at: "auth_token c = Some tok"
  shows "extends_by (forced_event tok (self_ex_force_base_url c)) c (snd (request w x hs m c))
       \<and> auth_token (snd (request w x hs m c)) = Some tok"
proof (cases rule: request_cases [of w x c m hs])
  case (ok resp c1)
  with base_request_forced [OF tok at, of w x "with_content_type c m hs"] show ?thesis by simp
next
  case (failed ex c1)
  note b = base_request_forced [OF tok at, of w x "with_content_type c m hs"]
  with failed(1) have "same_settings c c1" by (simp add: extends_by_def)
  from same_settings_token [OF this] tok have "self_ex_force_auth_token c1 \<noteq> None" by simp
  then have "evict_on_unauthorized w ex c1 = (ex, c1)" by (simp add: evict_not_unauthorized)
  with failed b show ?thesis by simp
qed

lemma requests_forced:
  assumes "self_ex_force_auth_token c = Some tok" "tok \<noteq> []" "auth_token c = Some tok"
  shows "extends_by (forced_event tok (self_ex_force_base_url c)) c (requests w calls c)"
  using assms
proof (induction calls arbitrary: c)
  case Nil
  show ?case by simp
next
  case (Cons call calls)
  obtain x hs m where call: "call = (x, hs, m)" by (cases call)
  let ?c1 = "snd (request w x hs m c)"
  from request_forced [OF Cons.prems, of w x hs m]
  have 1: "extends_by (forced_event tok (self_ex_force_base_url c)) c ?c1"
    and at: "auth_token ?c1 = Some tok" by simp_all
  from 1 have s: "same_settings c ?c1" by (simp add: extends_by_def)
  then have tk: "self_ex_force_auth_token ?c1 = Some tok"
    and url: "self_ex_force_base_url ?c1 = self_ex_force_base_url c"
    using Cons.prems(1) by (simp_all add: same_settings_token same_settings_base_url)
  from Cons.IH [OF tk Cons.prems(2) at]
  have 2: "extends_by (forced_event tok (self_ex_force_base_url c)) ?c1 (requests w calls ?c1)"
    by (simp add: url)
  show ?case unfolding call requests.simps by (rule extends_by_trans [OF 1 2])
qed

text \<open>
  C3 (as amended). When the constructor succeeds with a non-empty forced auth token,
  a non-empty forced base URL was supplied with it, and after any sequence of requests
  every event of the connection is connection info set up from exactly that URL, a
  connect, or an HTTP exchange whose auth header is exactly that token: the identity
  object's \<^verbatim>\<open>authenticate\<close> is never called, no handshake reaches the authentication
  endpoint, and the catalog is never consulted.
\<close>

theorem forced_token_skips_authentication:
  assumes "init cls kw = Inr self"
    and "ex_force_auth_token kw = Some tok" and "tok \<noteq> []"
  shows "truthy (ex_force_base_url kw)
       \<and> list_all (forced_event tok (ex_force_base_url kw)) (trace (requests w calls self))
       \<and> length (filter is_auth (trace (requests w calls self))) = 0"
proof -
  note f = init_fields [OF assms(1)]
  from assms(2,3) have t: "truthy (ex_force_auth_token kw)" by (simp add: truthy_def)
  from f(1) assms(2) have tk: "self_ex_force_auth_token self = Some tok" by simp
  from f(9) t assms(2) have at: "auth_token self = Some tok" by simp
  from requests_forced [OF tk assms(3) at, of w calls] f(2,8)
  have l: "list_all (forced_event tok (ex_force_base_url kw)) (trace (requests w calls self))"
    by (simp add: extends_by_def new_events_def)
  have "\<not> is_auth e" if "forced_event tok (ex_force_base_url kw) e" for e
    using that by (cases e) simp_all
  with l have "filter is_auth (trace (requests w calls self)) = []"
    by (auto simp add: list_all_iff filter_empty_conv)
  with l f(13) t show ?thesis by simp
qed

text \<open>
  The test's connection (token \<^verbatim>\<open>1234\<close>, base URL \<^verbatim>\<open>http://ponies\<close>) after a
  request answered 200 and one answered 401: two exchanges, no authentication.
\<close>

theorem forced_token_skips_authentication_witness:
  "init compute_class forced_kwargs = Inr (compute_conn forced_kwargs)
   \<and> ex_force_auth_token forced_kwargs = Some ''1234'' \<and> ''1234'' \<noteq> []
   \<and> ex_force_base_url forced_kwargs = Some ''http://ponies''
   \<and> list_all (forced_event ''1234'' (Some ''http://ponies''))
        (trace (requests example_world
                  [(ok_exchange, Map.empty, ''GET''), (unauthorized_exchange, Map.empty, ''GET'')]
                  (compute_conn forced_kwargs)))
   \<and> length (filter is_auth
        (trace (requests example_world
                  [(ok_exchange, Map.empty, ''GET''), (unauthorized_exchange, Map.empty, ''GET'')]
                  (compute_conn forced_kwargs)))) = 0
   \<and> length (filter is_transport
        (trace (requests example_world
                  [(ok_exchange, Map.empty, ''GET''), (unauthorized_exchange, Map.empty, ''GET'')]
                  (compute_conn forced_kwargs)))) = 2"
proof -
  have i: "init compute_class forced_kwargs = Inr (compute_conn forced_kwargs)"
    by (rule init_compute) (simp_all add: forced_kwargs_def no_kwargs_def truthy_def)
  have k: "ex_force_auth_token forced_kwargs = Some ''1234''"
    "ex_force_base_url forced_kwargs = Some ''http://ponies''"
    by (simp_all add: forced_kwargs_def no_kwargs_def)
  have n: "length (filter is_transport
        (trace (requests example_world
                  [(ok_exchange, Map.empty, ''GET''), (unauthorized_exchange, Map.empty, ''GET'')]
                  (compute_conn forced_kwargs)))) = 2"
    by (simp add: request_eval conn_eval)
  from forced_token_skips_authentication
         [OF i k(1), of example_world
            "[(ok_exchange, Map.empty, ''GET''), (unauthorized_exchange, Map.empty, ''GET'')]"]
  show ?thesis using i k n by simp
qed

text \<open>
  C3 as stated fails at the empty string: with the forced token \<^verbatim>\<open>""\<close> and a forced
  base URL the constructor succeeds, the truth test of line 375 is false, and the first
  request authenticates and sends the token the handshake returned.
\<close>

theorem empty_forced_token_authenticates_counterexample:
  "ex_force_auth_token empty_token_kwargs = Some []
   \<and> ex_force_base_url empty_token_kwargs = Some ''http://ponies''
   \<and> init compute_class empty_token_kwargs = Inr (compute_conn empty_token_kwargs)
   \<and> trace (requests example_world [(ok_exchange, Map.empty, ''GET'')]
              (compute_conn empty_token_kwargs))
      = [EvAuthenticate [], EvHandshake, EvSetUp (Some ''http://ponies''), EvConnect,
         EvTransport [AUTH_TOKEN_HEADER \<mapsto> Some ''T1'', ''Accept'' \<mapsto> Some ''application/json'']]"
proof -
  have i: "init compute_class empty_token_kwargs = Inr (compute_conn empty_token_kwargs)"
    by (rule init_compute) (simp_all add: empty_token_kwargs_def no_kwargs_def truthy_def)
  show ?thesis
    by (simp add: i) (simp add: request_eval conn_eval)
qed

section \<open>Reusing a valid token\<close>

lemma new_identity_invalid: "\<not> is_token_valid w t new_identity"
  by (simp add: is_token_valid_def new_identity_def truthy_def)

lemma refresh_token_invalid:
  assumes "\<not> is_token_valid w (now x) osa"
  shows "trace (snd (refresh_token w x osa c))
           = trace c @ [EvAuthenticate (auth_kwargs (auth_version c)), EvHandshake]"
    and "auth_reply x = Inr ctx \<Longrightarrow>
           fst (refresh_token w x osa c) = Inr ()
         \<and> self_osa (snd (refresh_token w x osa c)) = Some ctx
         \<and> auth_token (snd (refresh_token w x osa c)) = osa_auth_token ctx
         \<and> auth_token_expires (snd (refresh_token w x osa c)) = osa_auth_token_expires ctx
         \<and> auth_user_info (snd (refresh_token w x osa c)) = osa_auth_user_info ctx
         \<and> service_catalog (snd (refresh_token w x osa c)) = Some (osa_urls ctx)"
  using assms by (simp_all add: refresh_token_def authenticate_def Let_def split: sum.split)

text \<open>
  After the token has been refreshed (or found valid), the rest of the preparation
  looks up the catalog and sets up the connection info; it leaves the auth context alone.
\<close>

lemma populate_after_refresh:
  assumes nt: "\<not> truthy (self_ex_force_auth_token c)"
    and g: "get_auth_class w c = (Inr osa, c1)"
    and rf: "refresh_token w x osa c1 = (r, c2)"
  shows "extends_by (\<lambda>e. \<not> is_auth e \<and> \<not> is_clear e \<and> \<not> is_transport e) c2
           (snd (populate_hosts_and_request_paths w x c))
       \<and> auth_token (snd (populate_hosts_and_request_paths w x c)) = auth_token c2
       \<and> auth_token_expires (snd (populate_hosts_and_request_paths w x c)) = auth_token_expires c2
       \<and> auth_user_info (snd (populate_hosts_and_request_paths w x c)) = auth_user_info c2
       \<and> service_catalog (snd (populate_hosts_and_request_paths w x c)) = service_catalog c2
       \<and> self_osa (snd (populate_hosts_and_request_paths w x c)) = self_osa c2"
proof -
  let ?P = "\<lambda>e. \<not> is_auth e \<and> \<not> is_clear e \<and> \<not> is_transport e"
  have su: "extends_by ?P a (snd (set_up_connection_info w u a))" for a u
    by (rule extends_by_mono [OF set_up_extends]) auto
  have ge: "extends_by ?P a (snd (get_endpoint a))" for a
  proof (rule extends_by_mono [OF get_endpoint_extends])
    fix e show "is_lookup e \<Longrightarrow> ?P e" by (cases e) simp_all
  qed
  show ?thesis
  proof (cases rule: populate_cases [of w c x])
    case (auth_class_fails e c1')
    with g show ?thesis by simp
  next
    case (forced_token osa' c1')
    with nt show ?thesis by simp
  next
    case (auth_fails osa' c1' e c2')
    with g rf show ?thesis by simp
  next
    case (forced_url osa' c1' c2')
    with g rf have eq: "c2' = c2" by simp
    show ?thesis unfolding forced_url(5) eq by (simp add: su set_up_fields)
  next
    case (endpoint_fails osa' c1' c2' e c3)
    with g rf have eq: "c2' = c2" by simp
    from endpoint_fails(5) have c3: "c3 = snd (get_endpoint c2)" unfolding eq by simp
    show ?thesis unfolding endpoint_fails(6) snd_conv c3 by (simp add: ge get_endpoint_fields)
  next
    case (endpoint osa' c1' c2' url c3)
    with g rf have eq: "c2' = c2" by simp
    from endpoint(5) have c3: "c3 = snd (get_endpoint c2)" unfolding eq by simp
    have "extends_by ?P c2 (snd (set_up_connection_info w (Some url) (snd (get_endpoint c2))))"
      by (rule extends_by_trans [OF ge su])
    then show ?thesis unfolding endpoint(6) c3
      by (simp add: set_up_fields get_endpoint_fields)
  qed
qed

lemma filter_new_events:
  assumes "prefix (trace a) (trace b)" and "extends_by (\<lambda>e. \<not> Q e) b c"
  shows "filter Q (new_events a c) = filter Q (new_events a b)"
proof -
  from assms(2) have p: "prefix (trace b) (trace c)" and l: "list_all (\<lambda>e. \<not> Q e) (new_events b c)"
    by (simp_all add: extends_by_def)
  from l have "filter Q (new_events b c) = []" by (simp add: list_all_iff filter_empty_conv)
  with new_events_trans [OF assms(1) p] show ?thesis by simp
qed


lemma populate_valid:
  assumes o: "self_osa c = Some osa" and v: "is_token_valid w (now x) osa"
  shows "extends_by (\<lambda>e. \<not> is_auth e) c (snd (populate_hosts_and_request_paths w x c))
       \<and> auth_token (snd (populate_hosts_and_request_paths w x c)) = auth_token c
       \<and> auth_token_expires (snd (populate_hosts_and_request_paths w x c)) = auth_token_expires c
       \<and> auth_user_info (snd (populate_hosts_and_request_paths w x c)) = auth_user_info c
       \<and> service_catalog (snd (populate_hosts_and_request_paths w x c)) = service_catalog c
       \<and> self_osa (snd (populate_hosts_and_request_paths w x c)) = Some osa"
proof -
  from o have g: "get_auth_class w c = (Inr osa, c)" by (rule get_auth_class_Some)
  show ?thesis
  proof (cases "truthy (self_ex_force_auth_token c)")
    case True
    have su: "extends_by (\<lambda>e. \<not> is_auth e) c (snd (set_up_connection_info w u c))" for u
      by (rule extends_by_mono [OF set_up_extends]) auto
    from True g show ?thesis
      by (cases rule: populate_cases [of w c x]) (simp_all add: su set_up_fields o)
  next
    case False
    from v have rf: "refresh_token w x osa c = (Inr (), c)" by (rule refresh_token_valid)
    from populate_after_refresh [OF False g rf]
    have "extends_by (\<lambda>e. \<not> is_auth e \<and> \<not> is_clear e \<and> \<not> is_transport e) c
            (snd (populate_hosts_and_request_paths w x c))"
      and f: "auth_token (snd (populate_hosts_and_request_paths w x c)) = auth_token c"
        "auth_token_expires (snd (populate_hosts_and_request_paths w x c)) = auth_token_expires c"
        "auth_user_info (snd (populate_hosts_and_request_paths w x c)) = auth_user_info c"
        "service_catalog (snd (populate_hosts_and_request_paths w x c)) = service_catalog c"
        "self_osa (snd (populate_hosts_and_request_paths w x c)) = self_osa c"
      by simp_all
    then have "extends_by (\<lambda>e. \<not> is_auth e) c (snd (populate_hosts_and_request_paths w x c))"
      by (simp add: extends_by_mono)
    with f o show ?thesis by simp
  qed
qed

lemma populate_refreshes:
  assumes g: "get_auth_class w c = (Inr osa, c1)"
    and nt: "\<not> truthy (self_ex_force_auth_token c)"
    and iv: "\<not> is_token_valid w (now x) osa" and ar: "auth_reply x = Inr ctx"
  shows "prefix (trace c) (trace (snd (populate_hosts_and_request_paths w x c)))
       \<and> filter is_handshake (new_events c (snd (populate_hosts_and_request_paths w x c)))
           = [EvHandshake]
       \<and> auth_token (snd (populate_hosts_and_request_paths w x c)) = osa_auth_token ctx
       \<and> auth_token_expires (snd (populate_hosts_and_request_paths w x c))
           = osa_auth_token_expires ctx
       \<and> auth_user_info (snd (populate_hosts_and_request_paths w x c)) = osa_auth_user_info ctx
       \<and> service_catalog (snd (populate_hosts_and_request_paths w x c)) = Some (osa_urls ctx)
       \<and> self_osa (snd (populate_hosts_and_request_paths w x c)) = Some ctx"
proof -
  let ?c3 = "snd (populate_hosts_and_request_paths w x c)"
  let ?c2 = "snd (refresh_token w x osa c1)"
  from g have t1: "trace c1 = trace c" using get_auth_class_fields(5) [of w c] by simp
  from refresh_token_invalid(2) [OF iv ar, of c1]
  have rf: "refresh_token w x osa c1 = (Inr (), ?c2)" and f2:
    "self_osa ?c2 = Some ctx" "auth_token ?c2 = osa_auth_token ctx"
    "auth_token_expires ?c2 = osa_auth_token_expires ctx"
    "auth_user_info ?c2 = osa_auth_user_info ctx"
    "service_catalog ?c2 = Some (osa_urls ctx)"
    by (simp_all add: prod_eq_iff)
  have t2: "trace ?c2 = trace c @ [EvAuthenticate (auth_kwargs (auth_version c1)), EvHandshake]"
    using refresh_token_invalid(1) [OF iv, of c1] t1 by simp
  then have p2: "prefix (trace c) (trace ?c2)"
    and n2: "new_events c ?c2 = [EvAuthenticate (auth_kwargs (auth_version c1)), EvHandshake]"
    by (simp_all add: new_events_def)
  note rest = populate_after_refresh [OF nt g rf]
  have imp: "\<not> is_auth e \<and> \<not> is_clear e \<and> \<not> is_transport e \<Longrightarrow> \<not> is_handshake e" for e
    by (cases e) simp_all
  from rest have "extends_by (\<lambda>e. \<not> is_auth e \<and> \<not> is_clear e \<and> \<not> is_transport e) ?c2 ?c3"
    by simp
  then have e3: "extends_by (\<lambda>e. \<not> is_handshake e) ?c2 ?c3"
    by (rule extends_by_mono) (rule imp)
  from filter_new_events [OF p2 e3] n2
  have "filter is_handshake (new_events c ?c3) = [EvHandshake]" by simp
  moreover from e3 p2 have "prefix (trace c) (trace ?c3)"
    by (auto simp add: extends_by_def intro: prefix_order.trans)
  ultimately show ?thesis using rest f2 by simp
qed

lemma get_auth_class_ready:
  assumes "case self_osa c of
             Some osa \<Rightarrow> \<not> is_token_valid w t osa
           | None \<Rightarrow> known_auth_version w (auth_version c)"
  obtains osa c1 where "get_auth_class w c = (Inr osa, c1)" "\<not> is_token_valid w t osa"
proof (cases "self_osa c")
  case None
  with assms have "get_auth_class w c = (Inr new_identity, c\<lparr>self_osa := Some new_identity\<rparr>)"
    by (simp add: get_auth_class_new)
  then show ?thesis using new_identity_invalid by (rule that)
next
  case (Some osa)
  with assms have "get_auth_class w c = (Inr osa, c)" "\<not> is_token_valid w t osa"
    by (simp_all add: get_auth_class_Some)
  then show ?thesis by (rule that)
qed

text \<open>
  C6. If the identity object holds a valid token (present and not expired) when a
  request is prepared, \<^verbatim>\<open>_populate_hosts_and_request_paths\<close> neither calls
  \<^verbatim>\<open>authenticate\<close> nor reaches the authentication endpoint, and the connection's
  token, expiry, user info and service catalog, and the identity object's context, are
  what they were. Hence two preparations in succession, the first without a valid
  token and answered by a handshake whose context is valid at the time of the second,
  make exactly one handshake between them, and the second leaves token, expiry, user
  info, catalog and cached context as the first stored them.
\<close>

theorem valid_token_is_reused:
  "(self_osa self = Some osa \<and> is_token_valid w (now x) osa \<longrightarrow>
      prefix (trace self) (trace (snd (populate_hosts_and_request_paths w x self)))
    \<and> list_all (\<lambda>e. \<not> is_auth e)
         (new_events self (snd (populate_hosts_and_request_paths w x self)))
    \<and> auth_token (snd (populate_hosts_and_request_paths w x self)) = auth_token self
    \<and> auth_token_expires (snd (populate_hosts_and_request_paths w x self))
        = auth_token_expires self
    \<and> auth_user_info (snd (populate_hosts_and_request_paths w x self)) = auth_user_info self
    \<and> service_catalog (snd (populate_hosts_and_request_paths w x self)) = service_catalog self
    \<and> self_osa (snd (populate_hosts_and_request_paths w x self)) = Some osa)
 \<and> ((case self_osa self of
         Some cached \<Rightarrow> \<not> is_token_valid w (now x1) cached
       | None \<Rightarrow> known_auth_version w (auth_version self))
      \<and> \<not> truthy (self_ex_force_auth_token self)
      \<and> auth_reply x1 = Inr ctx \<and> is_token_valid w (now x2) ctx \<longrightarrow>
      filter is_handshake
        (new_events self
           (snd (populate_hosts_and_request_paths w x2
                   (snd (populate_hosts_and_request_paths w x1 self))))) = [EvHandshake]
    \<and> auth_token (snd (populate_hosts_and_request_paths w x2
                          (snd (populate_hosts_and_request_paths w x1 self))))
        = auth_token (snd (populate_hosts_and_request_paths w x1 self))
    \<and> auth_token (snd (populate_hosts_and_request_paths w x1 self)) = osa_auth_token ctx
    \<and> auth_token_expires (snd (populate_hosts_and_request_paths w x2
                          (snd (populate_hosts_and_request_paths w x1 self))))
        = auth_token_expires (snd (populate_hosts_and_request_paths w x1 self))
    \<and> auth_user_info (snd (populate_hosts_and_request_paths w x2
                          (snd (populate_hosts_and_request_paths w x1 self))))
        = auth_user_info (snd (populate_hosts_and_request_paths w x1 self))
    \<and> service_catalog (snd (populate_hosts_and_request_paths w x2
                          (snd (populate_hosts_and_request_paths w x1 self))))
        = service_catalog (snd (populate_hosts_and_request_paths w x1 self))
    \<and> self_osa (snd (populate_hosts_and_request_paths w x2
                          (snd (populate_hosts_and_request_paths w x1 self))))
        = self_osa (snd (populate_hosts_and_request_paths w x1 self)))"
proof (intro conjI impI; elim conjE)
  assume o: "self_osa self = Some osa" and v: "is_token_valid w (now x) osa"
  note p = populate_valid [OF o v]
  from p show "prefix (trace self) (trace (snd (populate_hosts_and_request_paths w x self)))"
    and "list_all (\<lambda>e. \<not> is_auth e)
           (new_events self (snd (populate_hosts_and_request_paths w x self)))"
    by (simp_all add: extends_by_def)
  from p show "auth_token (snd (populate_hosts_and_request_paths w x self)) = auth_token self"
    and "auth_token_expires (snd (populate_hosts_and_request_paths w x self))
           = auth_token_expires self"
    and "auth_user_info (snd (populate_hosts_and_request_paths w x self)) = auth_user_info self"
    and "service_catalog (snd (populate_hosts_and_request_paths w x self)) = service_catalog self"
    and "self_osa (snd (populate_hosts_and_request_paths w x self)) = Some osa"
    by simp_all
next
  let ?c1 = "snd (populate_hosts_and_request_paths w x1 self)"
  let ?c2 = "snd (populate_hosts_and_request_paths w x2 ?c1)"
  assume o: "case self_osa self of
               Some cached \<Rightarrow> \<not> is_token_valid w (now x1) cached
             | None \<Rightarrow> known_auth_version w (auth_version self)"
    and nt: "\<not> truthy (self_ex_force_auth_token self)"
    and ar: "auth_reply x1 = Inr ctx" and v: "is_token_valid w (now x2) ctx"
  from o obtain osa1 c1 where "get_auth_class w self = (Inr osa1, c1)"
    "\<not> is_token_valid w (now x1) osa1" by (rule get_auth_class_ready)
  note first = populate_refreshes [OF this(1) nt this(2) ar]
  from first have o1: "self_osa ?c1 = Some ctx" by simp
  note second = populate_valid [OF o1 v]
  have imp: "\<not> is_auth e \<Longrightarrow> \<not> is_handshake e" for e by (cases e) simp_all
  from second have "extends_by (\<lambda>e. \<not> is_auth e) ?c1 ?c2" by simp
  then have "extends_by (\<lambda>e. \<not> is_handshake e) ?c1 ?c2"
    by (rule extends_by_mono) (rule imp)
  with first filter_new_events [of self ?c1 is_handshake ?c2]
  show "filter is_handshake (new_events self ?c2) = [EvHandshake]" by simp
  from first show "auth_token ?c1 = osa_auth_token ctx" by simp
  from second show "auth_token ?c2 = auth_token ?c1"
    and "auth_token_expires ?c2 = auth_token_expires ?c1"
    and "auth_user_info ?c2 = auth_user_info ?c1"
    and "service_catalog ?c2 = service_catalog ?c1" by simp_all
  from second o1 show "self_osa ?c2 = self_osa ?c1" by simp
qed


text \<open>
  The spec's end-to-end example: the first preparation obtains the token \<^verbatim>\<open>T1\<close>
  (expiring at 3600), the second, 10 seconds later, makes no further handshake.
\<close>

theorem valid_token_is_reused_witness:
  "self_osa (compute_conn no_kwargs) = None
   \<and> known_auth_version example_world (auth_version (compute_conn no_kwargs))
   \<and> \<not> truthy (self_ex_force_auth_token (compute_conn no_kwargs))
   \<and> auth_reply unauthorized_exchange = Inr example_context
   \<and> is_token_valid example_world (now ok_exchange) example_context
   \<and> filter is_handshake
        (new_events (compute_conn no_kwargs)
           (snd (populate_hosts_and_request_paths example_world ok_exchange
                   (snd (populate_hosts_and_request_paths example_world unauthorized_exchange
                           (compute_conn no_kwargs)))))) = [EvHandshake]
   \<and> auth_token
        (snd (populate_hosts_and_request_paths example_world ok_exchange
                (snd (populate_hosts_and_request_paths example_world unauthorized_exchange
                        (compute_conn no_kwargs))))) = Some ''T1''
   \<and> self_osa (snd (populate_hosts_and_request_paths example_world unauthorized_exchange
                       (compute_conn no_kwargs))) = Some example_context
   \<and> list_all (\<lambda>e. \<not> is_auth e)
        (new_events
           (snd (populate_hosts_and_request_paths example_world unauthorized_exchange
                   (compute_conn no_kwargs)))
           (snd (populate_hosts_and_request_paths example_world ok_exchange
                   (snd (populate_hosts_and_request_paths example_world unauthorized_exchange
                           (compute_conn no_kwargs))))))"
proof -
  let ?c1 = "snd (populate_hosts_and_request_paths example_world unauthorized_exchange
                    (compute_conn no_kwargs))"
  have h: "self_osa (compute_conn no_kwargs) = None"
    "known_auth_version example_world (auth_version (compute_conn no_kwargs))"
    "\<not> truthy (self_ex_force_auth_token (compute_conn no_kwargs))"
    "auth_reply unauthorized_exchange = Inr example_context"
    "is_token_valid example_world (now ok_exchange) example_context"
    by (simp_all add: conn_eval example_world_def unauthorized_exchange_def ok_exchange_def
          example_context_def is_token_valid_def)
  have o1: "self_osa ?c1 = Some example_context"
    by (simp add: request_eval conn_eval)
  from valid_token_is_reused
         [of "compute_conn no_kwargs" new_identity example_world ok_exchange
             unauthorized_exchange example_context ok_exchange] h
  have two: "filter is_handshake
        (new_events (compute_conn no_kwargs)
           (snd (populate_hosts_and_request_paths example_world ok_exchange ?c1))) = [EvHandshake]"
    "auth_token (snd (populate_hosts_and_request_paths example_world ok_exchange ?c1)) = Some ''T1''"
    by (simp_all add: example_context_def)
  from valid_token_is_reused
         [of ?c1 example_context example_world ok_exchange
             unauthorized_exchange example_context ok_exchange] o1 h(5)
  have one: "list_all (\<lambda>e. \<not> is_auth e)
        (new_events ?c1 (snd (populate_hosts_and_request_paths example_world ok_exchange ?c1)))"
    by blast
  from h o1 two one show ?thesis by blast
qed

section \<open>The empty string as forced token\<close>

lemma init_succeeds:
  assumes "\<not> (truthy (ex_force_auth_token kw) \<and> \<not> truthy (ex_force_base_url kw))"
    and "truthy (if ex_force_auth_url kw \<noteq> None then ex_force_auth_url kw else auth_url cls)"
  shows "\<exists>self. init cls kw = Inr self"
  using assms
  by (cases "ex_force_auth_url kw")
     (simp_all add: init_def Let_def get_auth_url_def klass.defs connection.defs)

lemma request_with_token:
  assumes "self_ex_force_auth_token c \<noteq> None"
  shows "request w x hs m c = base_request w x (with_content_type c m hs) c"
proof (cases rule: request_cases [of w x c m hs])
  case (ok resp c1)
  then show ?thesis by simp
next
  case (failed ex c1)
  from base_request_effect [OF failed(1)] have "same_settings c c1" by (simp add: extends_by_def)
  from same_settings_token [OF this] assms have "self_ex_force_auth_token c1 \<noteq> None" by simp
  then have "evict_on_unauthorized w ex c1 = (ex, c1)" by (simp add: evict_not_unauthorized)
  with failed show ?thesis by simp
qed

lemma base_request_prefix:
  "prefix (trace (snd (populate_hosts_and_request_paths w x c)))
          (trace (snd (base_request w x hs c)))"
  by (cases rule: base_request_cases [of w x c hs]) simp_all

lemma populate_authenticates:
  assumes g: "get_auth_class w c = (Inr osa, c1)"
    and nt: "\<not> truthy (self_ex_force_auth_token c)"
    and iv: "\<not> is_token_valid w (now x) osa"
  shows "prefix (trace c @ [EvAuthenticate (auth_kwargs (auth_version c)), EvHandshake])
           (trace (snd (populate_hosts_and_request_paths w x c)))"
proof -
  let ?c2 = "snd (refresh_token w x osa c1)"
  from g have t1: "trace c1 = trace c" using get_auth_class_fields(5) [of w c] by simp
  from get_auth_class_same [OF g] have v1: "auth_version c1 = auth_version c"
    by (simp add: same_settings_def)
  have rf: "refresh_token w x osa c1 = (fst (refresh_token w x osa c1), ?c2)" by simp
  from populate_after_refresh [OF nt g rf]
  have "prefix (trace ?c2) (trace (snd (populate_hosts_and_request_paths w x c)))"
    by (simp add: extends_by_def)
  with refresh_token_invalid(1) [OF iv, of c1] t1 v1 show ?thesis by simp
qed

text \<open>
  C10. With the empty string as forced auth token and no forced base URL (and an auth
  URL set), the constructor succeeds and keeps the empty token; the first request
  authenticates as without a forced token: its events begin with the call of
  \<^verbatim>\<open>authenticate\<close> and the handshake (lines 207 and 375 test truthiness); yet the handler
  of line 269 tests \<^verbatim>\<open>is None\<close>, so \<^verbatim>\<open>request\<close> is the base class's request with no
  handling at all, and no sequence of requests ever evicts the cached auth context.
\<close>

theorem empty_forced_token_is_inconsistent:
  assumes "ex_force_auth_token kw = Some []" and "ex_force_base_url kw = None"
    and "truthy (if ex_force_auth_url kw \<noteq> None then ex_force_auth_url kw else auth_url cls)"
  shows "\<exists>self. init cls kw = Inr self
           \<and> self_ex_force_auth_token self = Some [] \<and> trace self = []
           \<and> (known_auth_version w (auth_version self) \<longrightarrow>
                take 2 (trace (snd (request w x hs m self)))
                  = [EvAuthenticate (auth_kwargs (auth_version self)), EvHandshake])
           \<and> request w x hs m self = base_request w x (with_content_type self m hs) self
           \<and> list_all (\<lambda>e. \<not> is_clear e) (trace (requests w calls self))"
proof -
  from assms(1) have nt: "\<not> truthy (ex_force_auth_token kw)" by (simp add: truthy_def)
  with assms(3) obtain self where i: "init cls kw = Inr self"
    using init_succeeds [of kw cls] by auto
  note f = init_fields [OF i]
  from f(1) assms(1) have tk: "self_ex_force_auth_token self = Some []" by simp
  then have nt': "\<not> truthy (self_ex_force_auth_token self)" by (simp add: truthy_def)
  from tk have rq: "request w x hs m self = base_request w x (with_content_type self m hs) self"
    by (simp add: request_with_token)
  have au: "take 2 (trace (snd (request w x hs m self)))
              = [EvAuthenticate (auth_kwargs (auth_version self)), EvHandshake]"
    if k: "known_auth_version w (auth_version self)"
  proof -
    from f(7) k have g: "get_auth_class w self
        = (Inr new_identity, self\<lparr>self_osa := Some new_identity\<rparr>)"
      by (rule get_auth_class_new)
    from populate_authenticates [OF g nt' new_identity_invalid, of x] f(8)
    have "prefix [EvAuthenticate (auth_kwargs (auth_version self)), EvHandshake]
            (trace (snd (populate_hosts_and_request_paths w x self)))" by simp
    from this base_request_prefix [of w x self "with_content_type self m hs"]
    have "prefix [EvAuthenticate (auth_kwargs (auth_version self)), EvHandshake]
            (trace (snd (request w x hs m self)))"
      unfolding rq by (rule prefix_order.trans)
    then show ?thesis by (auto simp add: prefix_def)
  qed
  from requests_extends [of self w calls] tk f(8)
  have "list_all (\<lambda>e. \<not> is_clear e) (trace (requests w calls self))"
    by (simp add: extends_by_def new_events_def)
  with i tk f(8) au rq show ?thesis by blast
qed

text \<open>
  A compute connection with the empty forced token whose first request is answered 401:
  it has authenticated, the error reaches the caller, and the identity object still
  holds the context of the handshake.
\<close>

theorem empty_forced_token_is_inconsistent_witness:
  "ex_force_auth_token (no_kwargs\<lparr>ex_force_auth_token := Some []\<rparr>) = Some []
   \<and> ex_force_base_url (no_kwargs\<lparr>ex_force_auth_token := Some []\<rparr>) = None
   \<and> init compute_class (no_kwargs\<lparr>ex_force_auth_token := Some []\<rparr>)
       = Inr (compute_conn (no_kwargs\<lparr>ex_force_auth_token := Some []\<rparr>))
   \<and> fst (request example_world unauthorized_exchange Map.empty ''GET''
            (compute_conn (no_kwargs\<lparr>ex_force_auth_token := Some []\<rparr>)))
       = Inl (BaseHTTPError 401 ''Unauthorized'')
   \<and> take 2 (trace (snd (request example_world unauthorized_exchange Map.empty ''GET''
                           (compute_conn (no_kwargs\<lparr>ex_force_auth_token := Some []\<rparr>)))))
       = [EvAuthenticate [], EvHandshake]
   \<and> list_all (\<lambda>e. \<not> is_clear e)
        (trace (requests example_world [(unauthorized_exchange, Map.empty, ''GET'')]
                  (compute_conn (no_kwargs\<lparr>ex_force_auth_token := Some []\<rparr>))))
   \<and> self_osa (snd (request example_world unauthorized_exchange Map.empty ''GET''
                       (compute_conn (no_kwargs\<lparr>ex_force_auth_token := Some []\<rparr>))))
       = Some example_context"
proof -
  let ?kw = "no_kwargs\<lparr>ex_force_auth_token := Some []\<rparr>"
  have k: "ex_force_auth_token ?kw = Some []" "ex_force_base_url ?kw = None"
    "truthy (if ex_force_auth_url ?kw \<noteq> None then ex_force_auth_url ?kw
             else auth_url compute_class)"
    by (simp_all add: no_kwargs_def compute_class_def truthy_def)
  have i: "init compute_class ?kw = Inr (compute_conn ?kw)"
    by (rule init_compute) (simp_all add: no_kwargs_def truthy_def)
  have v: "known_auth_version example_world (auth_version (compute_conn ?kw))"
    by (simp add: conn_eval example_world_def)
  have kwa: "auth_kwargs (auth_version (compute_conn ?kw)) = []"
    by (simp add: conn_eval auth_kwargs_def)
  have r: "fst (request example_world unauthorized_exchange Map.empty ''GET'' (compute_conn ?kw))
             = Inl (BaseHTTPError 401 ''Unauthorized'')"
    "self_osa (snd (request example_world unauthorized_exchange Map.empty ''GET''
                      (compute_conn ?kw))) = Some example_context"
    by (simp_all add: request_eval conn_eval)
  from empty_forced_token_is_inconsistent
         [OF k, of example_world unauthorized_exchange Map.empty "''GET''"
            "[(unauthorized_exchange, Map.empty, ''GET'')]"]
  show ?thesis using i k v kwa r by auto
qed

section \<open>Endpoint selection\<close>

lemma get_endpoint_lookup:
  assumes "service_catalog c = Some entries"
  shows "new_events c (snd (get_endpoint c))
           = [EvCatalogLookup
                (overlay (self_ex_force_service_type c) (service_type c))
                (overlay (self_ex_force_service_name c) (service_name c))
                (overlay (self_ex_force_service_region c) (service_region c))]"
    and "fst (get_endpoint c)
           = (case catalog_get_endpoint entries
                     (overlay (self_ex_force_service_type c) (service_type c))
                     (overlay (self_ex_force_service_name c) (service_name c))
                     (overlay (self_ex_force_service_region c) (service_region c)) of
                Inl e \<Rightarrow> Inl e
              | Inr endpoint \<Rightarrow>
                  (case entry_url endpoint of
                     None \<Rightarrow> Inl (LibcloudError ''Could not find specified endpoint'')
                   | Some u \<Rightarrow>
                       if u = [] then Inl (LibcloudError ''Could not find specified endpoint'')
                       else Inr u))"
  using assms
  by (simp_all add: get_endpoint_def new_events_def Let_def truthy_def
        split: sum.split option.split)

lemma overlay_cases:
  "overlay forced dflt
     = (case forced of None \<Rightarrow> dflt | Some s \<Rightarrow> if s = [] then dflt else Some s)"
  by (simp add: overlay_def truthy_def split: option.split)

lemma set_up_result:
  assumes "fst (set_up_connection_info w u c) = Inr ()"
  shows "\<exists>h p s rp. tuple_from_url w u = Inr (h, p, s, rp)
           \<and> host (snd (set_up_connection_info w u c)) = Some h
           \<and> port (snd (set_up_connection_info w u c)) = Some p
           \<and> secure (snd (set_up_connection_info w u c)) = s
           \<and> request_path (snd (set_up_connection_info w u c)) = Some rp"
  using assms
  by (cases "tuple_from_url w u")
     (auto simp add: set_up_connection_info_def Let_def split: prod.splits)

lemma set_up_event:
  "EvSetUp u \<in> set (new_events c (snd (set_up_connection_info w u c)))"
  by (simp add: set_up_connection_info_def new_events_def Let_def split: sum.split prod.split)

lemma new_events_mono:
  assumes "prefix (trace a) (trace b)" and "prefix (trace b) (trace c)"
  shows "set (new_events b c) \<subseteq> set (new_events a c)"
  using new_events_trans [OF assms] by simp

lemma populate_forced_url:
  assumes u: "self_ex_force_base_url c = Some url" "url \<noteq> []"
  shows "extends_by (\<lambda>e. \<not> is_lookup e \<and> set_up_from (Some url) e) c
           (snd (populate_hosts_and_request_paths w x c))
       \<and> (fst (populate_hosts_and_request_paths w x c) = Inr () \<longrightarrow>
            EvSetUp (Some url) \<in> set (new_events c (snd (populate_hosts_and_request_paths w x c)))
          \<and> (\<exists>h p s rp. tuple_from_url w (Some url) = Inr (h, p, s, rp)
               \<and> host (snd (populate_hosts_and_request_paths w x c)) = Some h
               \<and> port (snd (populate_hosts_and_request_paths w x c)) = Some p
               \<and> secure (snd (populate_hosts_and_request_paths w x c)) = s
               \<and> request_path (snd (populate_hosts_and_request_paths w x c)) = Some rp))"
proof -
  let ?P = "\<lambda>e. \<not> is_lookup e \<and> set_up_from (Some url) e"
  from u have t: "truthy (self_ex_force_base_url c)" by (simp add: truthy_def)
  have su: "extends_by ?P a (snd (set_up_connection_info w (Some url) a))" for a
    by (rule extends_by_mono [OF set_up_extends]) auto
  have au: "is_auth e \<Longrightarrow> ?P e" for e by (cases e) simp_all
  have rf: "extends_by ?P a b" if "refresh_token w x osa a = (r, b)" for osa a r b
    by (rule extends_by_mono [OF refresh_token_ext [OF that]]) (rule au)
  have fin: "extends_by ?P c a \<Longrightarrow>
      extends_by ?P c (snd (set_up_connection_info w (Some url) a))
    \<and> (fst (set_up_connection_info w (Some url) a) = Inr () \<longrightarrow>
          EvSetUp (Some url) \<in> set (new_events c (snd (set_up_connection_info w (Some url) a)))
        \<and> (\<exists>h p s rp. tuple_from_url w (Some url) = Inr (h, p, s, rp)
             \<and> host (snd (set_up_connection_info w (Some url) a)) = Some h
             \<and> port (snd (set_up_connection_info w (Some url) a)) = Some p
             \<and> secure (snd (set_up_connection_info w (Some url) a)) = s
             \<and> request_path (snd (set_up_connection_info w (Some url) a)) = Some rp))" for a
  proof -
    assume a: "extends_by ?P c a"
    let ?b = "snd (set_up_connection_info w (Some url) a)"
    from a su have 1: "extends_by ?P c ?b" by (rule extends_by_trans)
    from a have pa: "prefix (trace c) (trace a)" by (simp add: extends_by_def)
    from su [of a] have pb: "prefix (trace a) (trace ?b)" by (simp add: extends_by_def)
    from new_events_mono [OF pa pb] set_up_event [of "Some url" a w]
    have 2: "EvSetUp (Some url) \<in> set (new_events c ?b)" by blast
    from 1 2 set_up_result [of w "Some url" a] show ?thesis by blast
  qed
  show ?thesis
  proof (cases rule: populate_cases [of w c x])
    case (auth_class_fails e c1)
    then show ?thesis by (simp add: get_auth_class_ext)
  next
    case (forced_token osa c1)
    from fin [OF get_auth_class_ext [OF forced_token(1)]] show ?thesis
      unfolding forced_token(3) u(1) .
  next
    case (auth_fails osa c1 e c2)
    from extends_by_trans [OF get_auth_class_ext [OF auth_fails(1)] rf [OF auth_fails(3)]]
    show ?thesis unfolding auth_fails(4) by simp
  next
    case (forced_url osa c1 c2)
    from fin [OF extends_by_trans [OF get_auth_class_ext [OF forced_url(1)] rf [OF forced_url(3)]]]
    show ?thesis unfolding forced_url(5) u(1) .
  qed (use t in simp_all)
qed


text \<open>
  C7 (as amended). \<^verbatim>\<open>get_endpoint\<close> consults the catalog exactly once, for the
  effective service type, name and region: each is the forced value when that is a
  non-empty string, and the default otherwise; the URL of the entry found is the
  result. And when a non-empty forced base URL is set, preparing a request consults
  the catalog not at all, sets up connection info from no other URL, and, when it
  succeeds, has set host, port, scheme and request path from that URL.
\<close>

theorem endpoint_selection_overlay:
  "(service_catalog self = Some entries \<longrightarrow>
      new_events self (snd (get_endpoint self))
        = [EvCatalogLookup
             (case self_ex_force_service_type self of
                None \<Rightarrow> service_type self
              | Some s \<Rightarrow> if s = [] then service_type self else Some s)
             (case self_ex_force_service_name self of
                None \<Rightarrow> service_name self
              | Some s \<Rightarrow> if s = [] then service_name self else Some s)
             (case self_ex_force_service_region self of
                None \<Rightarrow> service_region self
              | Some s \<Rightarrow> if s = [] then service_region self else Some s)]
    \<and> fst (get_endpoint self)
        = (case catalog_get_endpoint entries
                  (overlay (self_ex_force_service_type self) (service_type self))
                  (overlay (self_ex_force_service_name self) (service_name self))
                  (overlay (self_ex_force_service_region self) (service_region self)) of
             Inl e \<Rightarrow> Inl e
           | Inr endpoint \<Rightarrow>
               (case entry_url endpoint of
                  None \<Rightarrow> Inl (LibcloudError ''Could not find specified endpoint'')
                | Some u \<Rightarrow>
                    if u = [] then Inl (LibcloudError ''Could not find specified endpoint'')
                    else Inr u)))
 \<and> (self_ex_force_base_url self = Some url \<and> url \<noteq> [] \<longrightarrow>
      prefix (trace self) (trace (snd (populate_hosts_and_request_paths w x self)))
    \<and> list_all (\<lambda>e. \<not> is_lookup e \<and> set_up_from (Some url) e)
         (new_events self (snd (populate_hosts_and_request_paths w x self)))
    \<and> (fst (populate_hosts_and_request_paths w x self) = Inr () \<longrightarrow>
         EvSetUp (Some url)
           \<in> set (new_events self (snd (populate_hosts_and_request_paths w x self)))
       \<and> (\<exists>h p s rp. tuple_from_url w (Some url) = Inr (h, p, s, rp)
            \<and> host (snd (populate_hosts_and_request_paths w x self)) = Some h
            \<and> port (snd (populate_hosts_and_request_paths w x self)) = Some p
            \<and> secure (snd (populate_hosts_and_request_paths w x self)) = s
            \<and> request_path (snd (populate_hosts_and_request_paths w x self)) = Some rp)))"
proof (intro conjI impI)
  assume c: "service_catalog self = Some entries"
  from get_endpoint_lookup(1) [OF c]
  show "new_events self (snd (get_endpoint self))
        = [EvCatalogLookup
             (case self_ex_force_service_type self of
                None \<Rightarrow> service_type self
              | Some s \<Rightarrow> if s = [] then service_type self else Some s)
             (case self_ex_force_service_name self of
                None \<Rightarrow> service_name self
              | Some s \<Rightarrow> if s = [] then service_name self else Some s)
             (case self_ex_force_service_region self of
                None \<Rightarrow> service_region self
              | Some s \<Rightarrow> if s = [] then service_region self else Some s)]"
    by (simp add: overlay_cases)
  from get_endpoint_lookup(2) [OF c]
  show "fst (get_endpoint self)
        = (case catalog_get_endpoint entries
                  (overlay (self_ex_force_service_type self) (service_type self))
                  (overlay (self_ex_force_service_name self) (service_name self))
                  (overlay (self_ex_force_service_region self) (service_region self)) of
             Inl e \<Rightarrow> Inl e
           | Inr endpoint \<Rightarrow>
               (case entry_url endpoint of
                  None \<Rightarrow> Inl (LibcloudError ''Could not find specified endpoint'')
                | Some u \<Rightarrow>
                    if u = [] then Inl (LibcloudError ''Could not find specified endpoint'')
                    else Inr u))" .
next
  assume "self_ex_force_base_url self = Some url \<and> url \<noteq> []"
  then have u: "self_ex_force_base_url self = Some url" "url \<noteq> []" by simp_all
  note p = populate_forced_url [OF u, of w x]
  from p show "prefix (trace self) (trace (snd (populate_hosts_and_request_paths w x self)))"
    and "list_all (\<lambda>e. \<not> is_lookup e \<and> set_up_from (Some url) e)
           (new_events self (snd (populate_hosts_and_request_paths w x self)))"
    by (simp_all add: extends_by_def)
  { assume "fst (populate_hosts_and_request_paths w x self) = Inr ()"
    with p show "EvSetUp (Some url)
           \<in> set (new_events self (snd (populate_hosts_and_request_paths w x self)))"
      and "\<exists>h p s rp. tuple_from_url w (Some url) = Inr (h, p, s, rp)
            \<and> host (snd (populate_hosts_and_request_paths w x self)) = Some h
            \<and> port (snd (populate_hosts_and_request_paths w x self)) = Some p
            \<and> secure (snd (populate_hosts_and_request_paths w x self)) = s
            \<and> request_path (snd (populate_hosts_and_request_paths w x self)) = Some rp"
      by blast+ }
qed

text \<open>
  A forced region \<^verbatim>\<open>ORD\<close> is looked up with the class's type and name; a forced base
  URL \<^verbatim>\<open>http://ponies\<close> is used without a lookup.
\<close>

theorem endpoint_selection_overlay_witness:
  "service_catalog
     ((compute_conn (no_kwargs\<lparr>ex_force_service_region := Some ''ORD''\<rparr>))
        \<lparr>service_catalog := Some (osa_urls example_context)\<rparr>) = Some (osa_urls example_context)
   \<and> new_events
        ((compute_conn (no_kwargs\<lparr>ex_force_service_region := Some ''ORD''\<rparr>))
           \<lparr>service_catalog := Some (osa_urls example_context)\<rparr>)
        (snd (get_endpoint
           ((compute_conn (no_kwargs\<lparr>ex_force_service_region := Some ''ORD''\<rparr>))
              \<lparr>service_catalog := Some (osa_urls example_context)\<rparr>)))
       = [EvCatalogLookup (Some ''compute'') (Some ''nova'') (Some ''ORD'')]
   \<and> self_ex_force_base_url (compute_conn (no_kwargs\<lparr>ex_force_base_url := Some ''http://ponies''\<rparr>))
       = Some ''http://ponies''
   \<and> ''http://ponies'' \<noteq> []
   \<and> fst (populate_hosts_and_request_paths example_world ok_exchange
            (compute_conn (no_kwargs\<lparr>ex_force_base_url := Some ''http://ponies''\<rparr>))) = Inr ()
   \<and> list_all (\<lambda>e. \<not> is_lookup e \<and> set_up_from (Some ''http://ponies'') e)
        (new_events (compute_conn (no_kwargs\<lparr>ex_force_base_url := Some ''http://ponies''\<rparr>))
           (snd (populate_hosts_and_request_paths example_world ok_exchange
                   (compute_conn (no_kwargs\<lparr>ex_force_base_url := Some ''http://ponies''\<rparr>)))))
   \<and> host (snd (populate_hosts_and_request_paths example_world ok_exchange
                   (compute_conn (no_kwargs\<lparr>ex_force_base_url := Some ''http://ponies''\<rparr>))))
       = Some ''http://ponies''"
proof -
  let ?c = "(compute_conn (no_kwargs\<lparr>ex_force_service_region := Some ''ORD''\<rparr>))
              \<lparr>service_catalog := Some (osa_urls example_context)\<rparr>"
  let ?d = "compute_conn (no_kwargs\<lparr>ex_force_base_url := Some ''http://ponies''\<rparr>)"
  have c: "service_catalog ?c = Some (osa_urls example_context)" by simp
  have d: "self_ex_force_base_url ?d = Some ''http://ponies''" by (simp add: conn_eval)
  have ok: "fst (populate_hosts_and_request_paths example_world ok_exchange ?d) = Inr ()"
    "host (snd (populate_hosts_and_request_paths example_world ok_exchange ?d))
       = Some ''http://ponies''"
    by (simp_all add: request_eval conn_eval)
  from endpoint_selection_overlay
         [of ?c "osa_urls example_context" "''x''" example_world ok_exchange] c
  have 1: "new_events ?c (snd (get_endpoint ?c))
             = [EvCatalogLookup (Some ''compute'') (Some ''nova'') (Some ''ORD'')]"
    by (simp add: conn_eval)
  from endpoint_selection_overlay
         [of ?d "[]" "''http://ponies''" example_world ok_exchange] d
  have 2: "list_all (\<lambda>e. \<not> is_lookup e \<and> set_up_from (Some ''http://ponies'') e)
        (new_events ?d (snd (populate_hosts_and_request_paths example_world ok_exchange ?d)))"
    by simp
  from c d ok 1 2 show ?thesis by simp
qed

text \<open>
  C7 as stated fails at the empty string: with the forced service type \<^verbatim>\<open>""\<close> and the
  forced base URL \<^verbatim>\<open>""\<close>, both present, the lookup is made with the class's type
  \<^verbatim>\<open>compute\<close>, and the catalog is consulted although a forced base URL is set.
\<close>

theorem empty_override_counterexample:
  "self_ex_force_service_type (compute_conn empty_overrides) = Some []
   \<and> self_ex_force_base_url (compute_conn empty_overrides) = Some []
   \<and> trace (snd (populate_hosts_and_request_paths example_world ok_exchange
                    (compute_conn empty_overrides)))
       = [EvAuthenticate [], EvHandshake,
          EvCatalogLookup (Some ''compute'') (Some ''nova'') (Some ''RegionOne''),
          EvSetUp (Some ''https://compute.example.com/v2''), EvConnect]"
  by (simp add: request_eval conn_eval)

section \<open>The task waiter\<close>

lemma rounds_snoc: "rounds k @ [TFetch, TCheck, TFetch] = rounds (Suc k) @ [TFetch]"
  by simp

lemma pending_Inr: "pending r \<Longrightarrow> \<exists>res. r = Inr res \<and> status res \<noteq> Some ''success''
   \<and> status res \<noteq> Some ''error'' \<and> status res \<noteq> Some ''canceled''"
  by (cases r) (simp_all add: pending_def)

text \<open>While the polls are pending and in time, the loop goes on to the next poll.\<close>

lemma wait_reaches:
  assumes "quiet env timeout k"
  shows "wait_for_task_completion env href timeout
           = (case fetch env k of
                Inl e \<Rightarrow> Some (Inl e, rounds k @ [TFetch])
              | Inr res \<Rightarrow>
                  wait_loop env href timeout (clock env 0) k (rounds k @ [TFetch]) res)"
  using assms
proof (induction k)
  case 0
  show ?case by (simp add: wait_for_task_completion_def split: sum.split)
next
  case (Suc k)
  from Suc.prems have q: "quiet env timeout k" and p: "pending (fetch env k)"
    and t: "clock env (Suc k) - clock env 0 < timeout" by simp_all
  from pending_Inr [OF p] obtain res where r: "fetch env k = Inr res"
    "status res \<noteq> Some ''success''" "status res \<noteq> Some ''error''"
    "status res \<noteq> Some ''canceled''" by blast
  from Suc.IH [OF q] r(1)
  have "wait_for_task_completion env href timeout
          = wait_loop env href timeout (clock env 0) k (rounds k @ [TFetch]) res" by simp
  also have "\<dots> = (case fetch env (Suc k) of
                Inl e \<Rightarrow> Some (Inl e, rounds (Suc k) @ [TFetch])
              | Inr res' \<Rightarrow>
                  wait_loop env href timeout (clock env 0) (Suc k) (rounds (Suc k) @ [TFetch]) res')"
    using r(2-4) t by (subst wait_loop.simps) (simp split: sum.split)
  finally show ?case .
qed


lemma wait_decided:
  assumes q: "quiet env timeout k" and f: "fetch env k = Inr res"
  shows "wait_for_task_completion env href timeout
           = (if status res = Some ''success'' then Some (Inr (), rounds k @ [TFetch])
              else if status res = Some ''error''
                then Some (Inl (Exception (error_text href (error_elem res))), rounds k @ [TFetch])
              else if status res = Some ''canceled''
                then Some (Inl (Exception (canceled_text href)), rounds k @ [TFetch])
              else if clock env (Suc k) - clock env 0 \<ge> timeout
                then Some (Inl (Exception (timeout_text env timeout href)), rounds (Suc k))
              else wait_for_task_completion env href timeout)"
proof -
  note w = wait_reaches [OF q, of href, unfolded f sum.case]
  show ?thesis
  proof (cases "pending (fetch env k) \<and> clock env (Suc k) - clock env 0 < timeout")
    case True
    with f show ?thesis by (auto simp add: pending_def)
  next
    case False
    with f show ?thesis
      unfolding w by (subst wait_loop.simps) (auto simp add: pending_def)
  qed
qed

lemma texts_distinct:
  "error_text h1 el \<noteq> canceled_text h2"
  "error_text h1 el \<noteq> timeout_text env t h2"
  "canceled_text h1 \<noteq> timeout_text env t h2"
  by (simp_all add: error_text_def canceled_text_def timeout_text_def)

text \<open>
  Whatever the loop returns, its trace is polls and checks in turn, beginning with a poll.
\<close>

lemma wait_loop_trace:
  assumes "wait_loop env href timeout start k tr res = Some y"
  shows "(\<exists>n. tr = rounds n @ [TFetch]) \<longrightarrow>
         (\<exists>n. snd y = rounds n @ [TFetch] \<or> snd y = rounds (Suc n))"
  using assms
proof (induction env href timeout start k tr res y
        rule: wait_loop.raw_induct [rotated 1, consumes 1, case_names step])
  case (step wait_loop' env href timeout start k tr res y)
  show ?case
  proof
    assume "\<exists>n. tr = rounds n @ [TFetch]"
    then obtain n where n: "tr = rounds n @ [TFetch]" by blast
    show "\<exists>n. snd y = rounds n @ [TFetch] \<or> snd y = rounds (Suc n)"
    proof (cases "pending (Inr res) \<and> \<not> clock env (Suc k) - start \<ge> timeout")
      case False
      with step.hyps n show ?thesis
        by (auto simp add: pending_def split: if_split_asm)
    next
      case True
      show ?thesis
      proof (cases "fetch env (Suc k)")
        case (Inl e)
        with True step.hyps n have "snd y = rounds (Suc n) @ [TFetch]"
          by (auto simp add: pending_def split: if_split_asm)
        then show ?thesis by blast
      next
        case (Inr res')
        with True step.hyps
        have "wait_loop' env href timeout start (Suc k) (tr @ [TCheck, TFetch]) res' = Some y"
          by (auto simp add: pending_def split: if_split_asm)
        moreover have "\<exists>m. tr @ [TCheck, TFetch] = rounds m @ [TFetch]"
          using n by (intro exI [of _ "Suc n"]) simp
        ultimately show ?thesis using step.IH by blast
      qed
    qed
  qed
qed


text \<open>
  C5 (as amended). Let the first \<open>k\<close> polls be pending and in time, and let poll \<open>k\<close>
  return a status. If it is \<^verbatim>\<open>success\<close> the waiter returns normally; if \<^verbatim>\<open>error\<close> it
  raises with the error text, which carries the provider's message when the Error
  element has one and the words \<^verbatim>\<open>Unknown error\<close> when the response has no Error
  element; if \<^verbatim>\<open>canceled\<close> it raises with the canceled text; if the poll is pending and
  the elapsed time read next has reached the timeout it raises with the timeout text.
  All three failures are Python's plain \<^verbatim>\<open>Exception\<close>; their texts differ from one
  another for all tasks, messages and timeouts, so the four outcomes are told apart.
\<close>

theorem task_waiter_outcomes:
  assumes "quiet env timeout k" and "fetch env k = Inr res"
  shows "(status res = Some ''success'' \<longrightarrow>
            map_option fst (wait_for_task_completion env href timeout) = Some (Inr ()))
       \<and> (status res = Some ''error'' \<longrightarrow>
            map_option fst (wait_for_task_completion env href timeout)
              = Some (Inl (Exception (error_text href (error_elem res)))))
       \<and> (status res = Some ''canceled'' \<longrightarrow>
            map_option fst (wait_for_task_completion env href timeout)
              = Some (Inl (Exception (canceled_text href))))
       \<and> (pending (Inr res) \<and> clock env (Suc k) - clock env 0 \<ge> timeout \<longrightarrow>
            map_option fst (wait_for_task_completion env href timeout)
              = Some (Inl (Exception (timeout_text env timeout href))))
       \<and> error_text href (Some (Some msg))
            = ''Error status returned by task '' @ href @ ''.: '' @ msg
       \<and> error_text href None = ''Error status returned by task '' @ href @ ''.: Unknown error''
       \<and> error_text h1 el \<noteq> canceled_text h2
       \<and> error_text h1 el \<noteq> timeout_text env' t h2
       \<and> canceled_text h1 \<noteq> timeout_text env' t h2"
proof -
  note d = wait_decided [OF assms, of href]
  have 1: "status res = Some ''success'' \<longrightarrow>
            map_option fst (wait_for_task_completion env href timeout) = Some (Inr ())"
    by (subst d) simp
  have 2: "status res = Some ''error'' \<longrightarrow>
            map_option fst (wait_for_task_completion env href timeout)
              = Some (Inl (Exception (error_text href (error_elem res))))"
    by (subst d) simp
  have 3: "status res = Some ''canceled'' \<longrightarrow>
            map_option fst (wait_for_task_completion env href timeout)
              = Some (Inl (Exception (canceled_text href)))"
    by (subst d) simp
  have 4: "pending (Inr res) \<and> clock env (Suc k) - clock env 0 \<ge> timeout \<longrightarrow>
            map_option fst (wait_for_task_completion env href timeout)
              = Some (Inl (Exception (timeout_text env timeout href)))"
    by (subst d) (simp add: pending_def)
  have 5: "error_text href (Some (Some msg))
            = ''Error status returned by task '' @ href @ ''.: '' @ msg"
    "error_text href None = ''Error status returned by task '' @ href @ ''.: Unknown error''"
    by (simp_all add: error_text_def)
  from 1 2 3 4 5 texts_distinct show ?thesis by blast
qed

text \<open>Evaluating the concrete tasks.\<close>

lemmas task_eval =
  succeeding_task_def failing_task_def running_task_def done_task_def canceled_task_def
  unexplained_task_def pending_def

text \<open>
  The spec's examples: success at the fourth poll, the error \<^verbatim>\<open>quota exceeded\<close>, a
  task that keeps running past a timeout of 10 seconds, and a canceled task.
\<close>

theorem task_waiter_outcomes_witness:
  "quiet succeeding_task 600 (Suc (Suc (Suc 0)))
   \<and> map_option fst (wait_for_task_completion succeeding_task ''task/1'' 600) = Some (Inr ())
   \<and> quiet failing_task 600 (Suc 0)
   \<and> map_option fst (wait_for_task_completion failing_task ''task/1'' 600)
       = Some (Inl (Exception ''Error status returned by task task/1.: quota exceeded''))
   \<and> quiet running_task 10 (Suc 0)
   \<and> clock running_task (Suc (Suc 0)) - clock running_task 0 \<ge> 10
   \<and> map_option fst (wait_for_task_completion running_task ''task/1'' 10)
       = Some (Inl (Exception ''Timeout (10 sec) while waiting for task task/1.''))
   \<and> quiet canceled_task 600 0
   \<and> map_option fst (wait_for_task_completion canceled_task ''task/1'' 600)
       = Some (Inl (Exception ''Canceled status returned by task task/1.''))"
proof -
  have q: "quiet succeeding_task 600 (Suc (Suc (Suc 0)))" "quiet failing_task 600 (Suc 0)"
    "quiet running_task 10 (Suc 0)"
    "clock running_task (Suc (Suc 0)) - clock running_task 0 \<ge> 10"
    by (simp_all add: task_eval)
  have qc: "quiet canceled_task 600 0" by simp
  have fc: "fetch canceled_task 0 = Inr \<lparr>status = Some ''canceled'', error_elem = None\<rparr>"
    by (simp add: task_eval)
  from task_waiter_outcomes [OF qc fc, of "''task/1''"]
  have 4: "map_option fst (wait_for_task_completion canceled_task ''task/1'' 600)
       = Some (Inl (Exception ''Canceled status returned by task task/1.''))"
    by (simp add: canceled_text_def)
  have f: "fetch succeeding_task (Suc (Suc (Suc 0)))
             = Inr \<lparr>status = Some ''success'', error_elem = None\<rparr>"
    "fetch failing_task (Suc 0)
       = Inr \<lparr>status = Some ''error'', error_elem = Some (Some ''quota exceeded'')\<rparr>"
    "fetch running_task (Suc 0) = Inr \<lparr>status = Some ''running'', error_elem = None\<rparr>"
    by (simp_all add: task_eval)
  from task_waiter_outcomes [OF q(1) f(1), of "''task/1''"]
  have 1: "map_option fst (wait_for_task_completion succeeding_task ''task/1'' 600) = Some (Inr ())"
    by simp
  from task_waiter_outcomes [OF q(2) f(2), of "''task/1''"]
  have 2: "map_option fst (wait_for_task_completion failing_task ''task/1'' 600)
       = Some (Inl (Exception ''Error status returned by task task/1.: quota exceeded''))"
    by (simp add: error_text_def)
  from task_waiter_outcomes [OF q(3) f(3), of "''task/1''"] q(4)
  have 3: "map_option fst (wait_for_task_completion running_task ''task/1'' 10)
       = Some (Inl (Exception ''Timeout (10 sec) while waiting for task task/1.''))"
    by (simp add: pending_def timeout_text_def running_task_def)
  from q qc 1 2 3 4 show ?thesis by simp
qed

text \<open>
  C5 as stated fails in two ways. It names a different kind of failure for each of
  error, cancellation and timeout, but the waiter raises the same plain \<^verbatim>\<open>Exception\<close>
  for all three, and only the message text tells them apart. And for an error whose
  Error element has no \<^verbatim>\<open>message\<close> attribute the text does not end in the generic
  \<^verbatim>\<open>Unknown error\<close>: line 680 overwrites that default with \<^verbatim>\<open>None\<close>, which line 682
  prints as the word None.
\<close>

theorem task_failures_counterexample:
  "map_option fst (wait_for_task_completion failing_task ''task/1'' 600)
     = Some (Inl (Exception ''Error status returned by task task/1.: quota exceeded''))
   \<and> map_option fst (wait_for_task_completion canceled_task ''task/1'' 600)
     = Some (Inl (Exception ''Canceled status returned by task task/1.''))
   \<and> map_option fst (wait_for_task_completion running_task ''task/1'' 10)
     = Some (Inl (Exception ''Timeout (10 sec) while waiting for task task/1.''))
   \<and> map_option (plain_exception \<circ> fst) (wait_for_task_completion failing_task ''task/1'' 600)
     = Some True
   \<and> map_option (plain_exception \<circ> fst) (wait_for_task_completion canceled_task ''task/1'' 600)
     = Some True
   \<and> map_option (plain_exception \<circ> fst) (wait_for_task_completion running_task ''task/1'' 10)
     = Some True
   \<and> fetch unexplained_task 0 = Inr \<lparr>status = Some ''error'', error_elem = Some None\<rparr>
   \<and> map_option fst (wait_for_task_completion unexplained_task ''task/1'' 600)
     = Some (Inl (Exception ''Error status returned by task task/1.: None''))"
proof -
  have q: "quiet failing_task 600 (Suc 0)" "quiet canceled_task 600 0"
    "quiet running_task 10 (Suc 0)" "quiet unexplained_task 600 0"
    by (simp_all add: task_eval)
  have f: "fetch failing_task (Suc 0)
       = Inr \<lparr>status = Some ''error'', error_elem = Some (Some ''quota exceeded'')\<rparr>"
    "fetch canceled_task 0 = Inr \<lparr>status = Some ''canceled'', error_elem = None\<rparr>"
    "fetch running_task (Suc 0) = Inr \<lparr>status = Some ''running'', error_elem = None\<rparr>"
    "fetch unexplained_task 0 = Inr \<lparr>status = Some ''error'', error_elem = Some None\<rparr>"
    by (simp_all add: task_eval)
  have t: "clock running_task (Suc (Suc 0)) - clock running_task 0 \<ge> 10"
    by (simp add: task_eval)
  have 1: "wait_for_task_completion failing_task ''task/1'' 600
     = Some (Inl (Exception ''Error status returned by task task/1.: quota exceeded''),
             rounds (Suc 0) @ [TFetch])"
    by (subst wait_decided [OF q(1) f(1)]) (simp add: error_text_def)
  have 2: "wait_for_task_completion canceled_task ''task/1'' 600
     = Some (Inl (Exception ''Canceled status returned by task task/1.''), rounds 0 @ [TFetch])"
    by (subst wait_decided [OF q(2) f(2)]) (simp add: canceled_text_def)
  have 3: "wait_for_task_completion running_task ''task/1'' 10
     = Some (Inl (Exception ''Timeout (10 sec) while waiting for task task/1.''),
             rounds (Suc (Suc 0)))"
    using t by (subst wait_decided [OF q(3) f(3)]) (simp add: timeout_text_def running_task_def)
  have 4: "wait_for_task_completion unexplained_task ''task/1'' 600
     = Some (Inl (Exception ''Error status returned by task task/1.: None''), rounds 0 @ [TFetch])"
    by (subst wait_decided [OF q(4) f(4)]) (simp add: error_text_def)
  show ?thesis unfolding 1 2 3 4 by (simp add: f(4))
qed

text \<open>
  C9. Whatever the waiter returns, its trace of polls and elapsed-time checks begins
  with a poll and goes on in turn, so every check comes after a poll. A task whose
  first poll reports \<^verbatim>\<open>success\<close> returns successfully after that one poll and no check,
  for every timeout. When poll \<open>k\<close> reports \<^verbatim>\<open>error\<close> or \<^verbatim>\<open>canceled\<close>, that is the
  outcome, and the trace ends with that poll: no elapsed time is compared after it,
  whatever the clock would read. A timeout ends with a check.
\<close>

theorem task_waiter_order:
  "(wait_for_task_completion env href timeout = Some (r, tr) \<longrightarrow>
      (\<exists>n. tr = rounds n @ [TFetch] \<or> tr = rounds (Suc n)))
 \<and> (fetch env 0 = Inr res0 \<and> status res0 = Some ''success'' \<longrightarrow>
      wait_for_task_completion env href timeout = Some (Inr (), [TFetch]))
 \<and> (quiet env timeout k \<and> fetch env k = Inr res \<and> status res = Some ''error'' \<longrightarrow>
      wait_for_task_completion env href timeout
        = Some (Inl (Exception (error_text href (error_elem res))), rounds k @ [TFetch]))
 \<and> (quiet env timeout k \<and> fetch env k = Inr res \<and> status res = Some ''canceled'' \<longrightarrow>
      wait_for_task_completion env href timeout
        = Some (Inl (Exception (canceled_text href)), rounds k @ [TFetch]))
 \<and> (quiet env timeout k \<and> pending (fetch env k)
      \<and> clock env (Suc k) - clock env 0 \<ge> timeout \<longrightarrow>
      wait_for_task_completion env href timeout
        = Some (Inl (Exception (timeout_text env timeout href)), rounds (Suc k)))"
proof (intro conjI impI)
  assume a: "wait_for_task_completion env href timeout = Some (r, tr)"
  show "\<exists>n. tr = rounds n @ [TFetch] \<or> tr = rounds (Suc n)"
  proof (cases "fetch env 0")
    case (Inl e)
    with a have "tr = rounds 0 @ [TFetch]" by (simp add: wait_for_task_completion_def)
    then show ?thesis by blast
  next
    case (Inr res)
    with a have "wait_loop env href timeout (clock env 0) 0 [TFetch] res = Some (r, tr)"
      by (simp add: wait_for_task_completion_def)
    from wait_loop_trace [OF this] have "\<exists>n. [TFetch] = rounds n @ [TFetch] \<Longrightarrow> ?thesis"
      by simp
    moreover have "[TFetch] = rounds 0 @ [TFetch]" by simp
    ultimately show ?thesis by blast
  qed
next
  assume "fetch env 0 = Inr res0 \<and> status res0 = Some ''success''"
  then have f: "fetch env 0 = Inr res0" and s: "status res0 = Some ''success''" by simp_all
  have q: "quiet env timeout 0" by simp
  from s show "wait_for_task_completion env href timeout = Some (Inr (), [TFetch])"
    by (subst wait_decided [OF q f]) simp
next
  assume "quiet env timeout k \<and> fetch env k = Inr res \<and> status res = Some ''error''"
  then have q: "quiet env timeout k" and f: "fetch env k = Inr res"
    and s: "status res = Some ''error''" by simp_all
  from s show "wait_for_task_completion env href timeout
        = Some (Inl (Exception (error_text href (error_elem res))), rounds k @ [TFetch])"
    by (subst wait_decided [OF q f]) simp
next
  assume "quiet env timeout k \<and> fetch env k = Inr res \<and> status res = Some ''canceled''"
  then have q: "quiet env timeout k" and f: "fetch env k = Inr res"
    and s: "status res = Some ''canceled''" by simp_all
  from s show "wait_for_task_completion env href timeout
        = Some (Inl (Exception (canceled_text href)), rounds k @ [TFetch])"
    by (subst wait_decided [OF q f]) simp
next
  assume "quiet env timeout k \<and> pending (fetch env k)
      \<and> clock env (Suc k) - clock env 0 \<ge> timeout"
  then have q: "quiet env timeout k" and p: "pending (fetch env k)"
    and t: "clock env (Suc k) - clock env 0 \<ge> timeout" by simp_all
  from pending_Inr [OF p] obtain res' where f: "fetch env k = Inr res'"
    and s: "status res' \<noteq> Some ''success''" "status res' \<noteq> Some ''error''"
      "status res' \<noteq> Some ''canceled''" by blast
  from s t show "wait_for_task_completion env href timeout
        = Some (Inl (Exception (timeout_text env timeout href)), rounds (Suc k))"
    by (subst wait_decided [OF q f]) simp
qed

text \<open>
  Timeouts 0 and -1 with a task that has succeeded; an error at the second poll with a
  timeout of 7 seconds, where the next clock reading would be 10; a timeout; and a task
  canceled at its first poll, whose trace is that one poll.
\<close>

theorem task_waiter_order_witness:
  "fetch done_task 0 = Inr \<lparr>status = Some ''success'', error_elem = None\<rparr>
   \<and> wait_for_task_completion done_task ''task/1'' 0 = Some (Inr (), [TFetch])
   \<and> wait_for_task_completion done_task ''task/1'' (- 1) = Some (Inr (), [TFetch])
   \<and> quiet failing_task 7 (Suc 0)
   \<and> clock failing_task (Suc (Suc 0)) - clock failing_task 0 \<ge> 7
   \<and> wait_for_task_completion failing_task ''task/1'' 7
       = Some (Inl (Exception ''Error status returned by task task/1.: quota exceeded''),
               [TFetch, TCheck, TFetch])
   \<and> quiet running_task 10 (Suc 0) \<and> pending (fetch running_task (Suc 0))
   \<and> wait_for_task_completion running_task ''task/1'' 10
       = Some (Inl (Exception ''Timeout (10 sec) while waiting for task task/1.''),
               [TFetch, TCheck, TFetch, TCheck])
   \<and> quiet canceled_task 0 0
   \<and> wait_for_task_completion canceled_task ''task/1'' 0
       = Some (Inl (Exception ''Canceled status returned by task task/1.''), [TFetch])
   \<and> (\<exists>n. [TFetch] = rounds n @ [TFetch] \<or> [TFetch] = rounds (Suc n))"
proof -
  have d: "fetch done_task 0 = Inr \<lparr>status = Some ''success'', error_elem = None\<rparr>"
    by (simp add: task_eval)
  have q: "quiet failing_task 7 (Suc 0)"
    "clock failing_task (Suc (Suc 0)) - clock failing_task 0 \<ge> 7"
    "fetch failing_task (Suc 0)
       = Inr \<lparr>status = Some ''error'', error_elem = Some (Some ''quota exceeded'')\<rparr>"
    "quiet running_task 10 (Suc 0)" "pending (fetch running_task (Suc 0))"
    "clock running_task (Suc (Suc 0)) - clock running_task 0 \<ge> 10"
    by (simp_all add: task_eval)
  note t = task_waiter_order
  from t [of done_task "''task/1''" 0 _ _ "\<lparr>status = Some ''success'', error_elem = None\<rparr>"] d
  have 1: "wait_for_task_completion done_task ''task/1'' 0 = Some (Inr (), [TFetch])" by simp
  from t [of done_task "''task/1''" "- 1" _ _ "\<lparr>status = Some ''success'', error_elem = None\<rparr>"] d
  have 2: "wait_for_task_completion done_task ''task/1'' (- 1) = Some (Inr (), [TFetch])" by simp
  from t [of failing_task "''task/1''" 7 _ _ _ "Suc 0"
            "\<lparr>status = Some ''error'', error_elem = Some (Some ''quota exceeded'')\<rparr>"] q(1,3)
  have 3: "wait_for_task_completion failing_task ''task/1'' 7
       = Some (Inl (Exception ''Error status returned by task task/1.: quota exceeded''),
               [TFetch, TCheck, TFetch])" by (simp add: error_text_def)
  from t [of running_task "''task/1''" 10 _ _ _ "Suc 0"] q(4,5,6)
  have 4: "wait_for_task_completion running_task ''task/1'' 10
       = Some (Inl (Exception ''Timeout (10 sec) while waiting for task task/1.''),
               [TFetch, TCheck, TFetch, TCheck])"
    by (simp add: timeout_text_def running_task_def)
  have qc: "quiet canceled_task 0 0" by simp
  have fc: "fetch canceled_task 0 = Inr \<lparr>status = Some ''canceled'', error_elem = None\<rparr>"
    by (simp add: task_eval)
  from t [of canceled_task "''task/1''" 0 _ _ _ 0
            "\<lparr>status = Some ''canceled'', error_elem = None\<rparr>"] qc fc
  have 5: "wait_for_task_completion canceled_task ''task/1'' 0
       = Some (Inl (Exception ''Canceled status returned by task task/1.''), [TFetch])"
    by (simp add: canceled_text_def)
  from t [of canceled_task "''task/1''" 0
            "Inl (Exception ''Canceled status returned by task task/1.'')" "[TFetch]"] 5
  have 6: "\<exists>n. [TFetch] = rounds n @ [TFetch] \<or> [TFetch] = rounds (Suc n)" by simp
  from d q qc 1 2 3 4 5 6 show ?thesis by simp
qed

end
